theory Spec2Isabelle
  imports Main "HOL-Library.Sublist"
begin

section \<open>Values, errors and the remote collaborator\<close>

text \<open>
  The client of \<^verbatim>\<open>rabj/simple.py\<close> handles parsed response bodies and keyword
  arguments: nested structures mirroring JSON. Numbers are Python's unbounded integers.
  A dictionary is an association list with distinct keys, in insertion order.
\<close>

datatype json =
    JNone
  | JBool bool
  | JInt int
  | JStr string
  | JList "json list"
  | JDict "(string \<times> json) list"

text \<open>
  Every \<^verbatim>\<open>raise\<close> and failed \<^verbatim>\<open>assert\<close> is a value. \<open>Remote\<close> stands
  for whatever the HTTP layer raises (not found, unauthorized, transport failure).
\<close>

datatype error =
    AssertionError
  | TypeError
  | ValueError
  | KeyError
  | AttributeError
  | Remote string

datatype meth = GET | POST | PUT | DELETE

text \<open>
  A request is what the code hands to the HTTP layer \<^verbatim>\<open>rabj.api\<close>: the object
  the path was composed on (a fresh \<^verbatim>\<open>RabjCallable(url, access_key)\<close> or a
  response container such as \<^verbatim>\<open>self.queue\<close>), the attribute and index segments in
  order, the method called, and its keyword arguments.
\<close>

datatype target =
    RabjCallable json json
  | Container json

type_synonym callable = "target \<times> json list"

record request =
  target :: target
  path :: "json list"
  meth :: meth
  kwargs :: "(string \<times> json) list"

text \<open>
  The HTTP layer and the server behind it are a parameter: a function from the server's
  state and a request to either an error or the pair
  \<^verbatim>\<open>(response_metadata, parsed_body)\<close>, and the next state. The world a client
  call runs in holds the server's state, the requests issued so far (oldest first) and
  the warnings logged.
\<close>

type_synonym 's remote = "'s \<Rightarrow> request \<Rightarrow> (error + (json \<times> json)) \<times> 's"

record 's world =
  server_state :: 's
  sent :: "request list"
  logged :: "string list"

definition call :: "'s remote \<Rightarrow> request \<Rightarrow> 's world \<Rightarrow> (error + (json \<times> json)) \<times> 's world" where
  "call srv rq w =
     (case srv (server_state w) rq of
        (r, s') \<Rightarrow> (r, w\<lparr>server_state := s', sent := sent w @ [rq]\<rparr>))"

definition get_request :: "callable \<Rightarrow> request" where
  "get_request rc = \<lparr>target = fst rc, path = snd rc, meth = GET, kwargs = []\<rparr>"

subsection \<open>Python operations on values\<close>

fun truthy :: "json \<Rightarrow> bool" where
  "truthy JNone = False"
| "truthy (JBool b) = b"
| "truthy (JInt i) = (i \<noteq> 0)"
| "truthy (JStr s) = (s \<noteq> [])"
| "truthy (JList xs) = (xs \<noteq> [])"
| "truthy (JDict kvs) = (kvs \<noteq> [])"

text \<open>\<^verbatim>\<open>d[k]\<close> for a string key.\<close>

fun getitem :: "json \<Rightarrow> string \<Rightarrow> error + json" where
  "getitem (JDict kvs) k = (case map_of kvs k of None \<Rightarrow> Inl KeyError | Some v \<Rightarrow> Inr v)"
| "getitem _ k = Inl TypeError"

text \<open>\<^verbatim>\<open>d.get(k, default)\<close> on a dictionary.\<close>

definition dict_get :: "(string \<times> json) list \<Rightarrow> string \<Rightarrow> json \<Rightarrow> json" where
  "dict_get kvs k dflt = (case map_of kvs k of None \<Rightarrow> dflt | Some v \<Rightarrow> v)"

text \<open>\<^verbatim>\<open>d[k] = v\<close> and \<^verbatim>\<open>d.update(m)\<close>.\<close>

fun dict_set :: "(string \<times> json) list \<Rightarrow> string \<Rightarrow> json \<Rightarrow> (string \<times> json) list" where
  "dict_set [] k v = [(k, v)]"
| "dict_set ((k', v') # kvs) k v =
     (if k' = k then (k, v) # kvs else (k', v') # dict_set kvs k v)"

fun dict_update :: "(string \<times> json) list \<Rightarrow> (string \<times> json) list \<Rightarrow> (string \<times> json) list" where
  "dict_update d [] = d"
| "dict_update d ((k, v) # m) = dict_update (dict_set d k v) m"

text \<open>\<^verbatim>\<open>len(x)\<close> and iteration over \<^verbatim>\<open>x\<close> (as \<^verbatim>\<open>list.extend\<close> and a
  generator expression do).\<close>

fun py_len :: "json \<Rightarrow> error + int" where
  "py_len (JList xs) = Inr (int (length xs))"
| "py_len (JDict kvs) = Inr (int (length kvs))"
| "py_len (JStr s) = Inr (int (length s))"
| "py_len _ = Inl TypeError"

fun py_iter :: "json \<Rightarrow> error + json list" where
  "py_iter (JList xs) = Inr xs"
| "py_iter (JDict kvs) = Inr (map (\<lambda>kv. JStr (fst kv)) kvs)"
| "py_iter (JStr s) = Inr (map (\<lambda>c. JStr [c]) s)"
| "py_iter _ = Inl TypeError"

text \<open>\<^verbatim>\<open>s.endswith(t)\<close> and the slice \<^verbatim>\<open>s[:-n]\<close> for \<open>n > 0\<close>.\<close>

definition endswith :: "string \<Rightarrow> string \<Rightarrow> bool" where
  "endswith s t = suffix t s"

definition slice_to_neg :: "string \<Rightarrow> nat \<Rightarrow> string" where
  "slice_to_neg s n = take (length s - n) s"

text \<open>
  \<^verbatim>\<open>a + b\<close>: integers add (a bool counts as 0 or 1), strings and lists concatenate,
  anything else is a \<open>TypeError\<close>.
\<close>

fun as_int :: "json \<Rightarrow> int option" where
  "as_int (JInt i) = Some i"
| "as_int (JBool b) = Some (if b then 1 else 0)"
| "as_int _ = None"

definition py_add :: "json \<Rightarrow> json \<Rightarrow> error + json" where
  "py_add a b =
     (case (as_int a, as_int b) of
        (Some x, Some y) \<Rightarrow> Inr (JInt (x + y))
      | _ \<Rightarrow>
        (case (a, b) of
           (JStr x, JStr y) \<Rightarrow> Inr (JStr (x @ y))
         | (JList x, JList y) \<Rightarrow> Inr (JList (x @ y))
         | _ \<Rightarrow> Inl TypeError))"

text \<open>
  \<^verbatim>\<open>int(x)\<close>: an integer or bool is taken as it is; a string must be a decimal literal,
  an optional sign and digits with optional whitespace around them, or the result is
  \<open>ValueError\<close>; \<^verbatim>\<open>None\<close>, lists and dictionaries give \<open>TypeError\<close>.
\<close>

definition is_space :: "char \<Rightarrow> bool" where
  "is_space c = (c \<in> {CHR '' '', CHR 0x09, CHR 0x0A, CHR 0x0B, CHR 0x0C, CHR 0x0D})"

definition strip :: "string \<Rightarrow> string" where
  "strip s = rev (dropWhile is_space (rev (dropWhile is_space s)))"

definition digit_val :: "char \<Rightarrow> nat option" where
  "digit_val c =
     (let n = (of_char c :: nat) in if 48 \<le> n \<and> n \<le> 57 then Some (n - 48) else None)"

fun digits_val :: "string \<Rightarrow> nat \<Rightarrow> nat option" where
  "digits_val [] acc = Some acc"
| "digits_val (c # cs) acc =
     (case digit_val c of None \<Rightarrow> None | Some d \<Rightarrow> digits_val cs (10 * acc + d))"

definition int_of_str :: "string \<Rightarrow> error + int" where
  "int_of_str s =
     (let t = strip s;
          neg = (t \<noteq> [] \<and> hd t = CHR ''-'');
          ds = (if t \<noteq> [] \<and> (hd t = CHR ''-'' \<or> hd t = CHR ''+'') then tl t else t)
      in if ds = [] then Inl ValueError
         else (case digits_val ds 0 of
                 None \<Rightarrow> Inl ValueError
               | Some n \<Rightarrow> Inr (if neg then - int n else int n)))"

fun py_int :: "json \<Rightarrow> error + int" where
  "py_int (JInt i) = Inr i"
| "py_int (JBool b) = Inr (if b then 1 else 0)"
| "py_int (JStr s) = int_of_str s"
| "py_int _ = Inl TypeError"

text \<open>
  A call \<^verbatim>\<open>f(a, b, **meta)\<close> binds each key of \<^verbatim>\<open>meta\<close> that names a parameter of
  \<^verbatim>\<open>f\<close> to that parameter; when the parameter already has its positional value the
  call is a \<open>TypeError\<close> and the body does not run.
\<close>

definition rebinds :: "string list \<Rightarrow> (string \<times> json) list \<Rightarrow> bool" where
  "rebinds params meta = list_ex (\<lambda>kv. fst kv \<in> set params) meta"

text \<open>
  \<^verbatim>\<open>isinstance(x, classinfo)\<close> for the two classes the code names. The second argument
  must be a class or a tuple of classes; given a list, the call is a \<open>TypeError\<close>.
\<close>

datatype pytype = Basestring | Dict

datatype classinfo =
    Class pytype
  | ClassTuple "pytype list"
  | ClassList "pytype list"

fun has_type :: "json \<Rightarrow> pytype \<Rightarrow> bool" where
  "has_type (JStr s) Basestring = True"
| "has_type (JDict kvs) Dict = True"
| "has_type _ _ = False"

fun isinstance :: "json \<Rightarrow> classinfo \<Rightarrow> error + bool" where
  "isinstance x (Class t) = Inr (has_type x t)"
| "isinstance x (ClassTuple ts) = Inr (list_ex (has_type x) ts)"
| "isinstance x (ClassList ts) = Inl TypeError"

text \<open>\<^verbatim>\<open>a, b = x\<close>: \<^verbatim>\<open>x\<close> must yield exactly two values.\<close>

definition unpack2 :: "json \<Rightarrow> error + (json \<times> json)" where
  "unpack2 x =
     (case py_iter x of
        Inl e \<Rightarrow> Inl e
      | Inr [a, b] \<Rightarrow> Inr (a, b)
      | Inr _ \<Rightarrow> Inl ValueError)"

section \<open>RabjServer\<close>

record rabjserver =
  server :: string
  store :: callable
  server_threads :: int

text \<open>
  \<^verbatim>\<open>RabjServer.__init__(self, server_url, store_path='rabj/store/')\<close>. Building the
  \<^verbatim>\<open>RabjCallable\<close> composes a path and issues no request.
\<close>

definition RabjServer_init :: "string \<Rightarrow> string \<Rightarrow> rabjserver" where
  "RabjServer_init server_url store_path =
     (let srv_url =
            (if endswith server_url ''/rabj/store/'' then slice_to_neg server_url 11
             else if endswith server_url ''/rabj/'' then slice_to_neg server_url 5
             else server_url)
      in \<lparr>server = srv_url,
          store = (RabjCallable (JStr srv_url) JNone, [JStr store_path]),
          server_threads = 1\<rparr>)"

section \<open>RabjQuestion\<close>

record rabjquestion =
  question :: json

text \<open>
  \<^verbatim>\<open>RabjQuestion.__init__(self, question=None, server=None, id=None)\<close>. An argument
  left out is \<open>JNone\<close>. On bools \<^verbatim>\<open>^\<close> is exclusive or and \<^verbatim>\<open>&\<close> is
  conjunction. \<^verbatim>\<open>if not question\<close> tests truthiness, so a record that is given but
  empty is fetched from \<^verbatim>\<open>RabjCallable(server)[id]\<close> all the same.
\<close>

definition RabjQuestion_init ::
  "'s remote \<Rightarrow> json \<Rightarrow> json \<Rightarrow> json \<Rightarrow> 's world \<Rightarrow> (error + rabjquestion) \<times> 's world" where
  "RabjQuestion_init srv q server_ref qid w =
     (if (q \<noteq> JNone) \<noteq> (server_ref \<noteq> JNone \<and> qid \<noteq> JNone) then
        (if \<not> truthy q then
           (case call srv (get_request (RabjCallable server_ref JNone, [qid])) w of
              (Inl e, w') \<Rightarrow> (Inl e, w')
            | (Inr (resp, fetched), w') \<Rightarrow> (Inr \<lparr>question = fetched\<rparr>, w'))
         else (Inr \<lparr>question = q\<rparr>, w))
      else (Inl AssertionError, w))"

section \<open>RabjQueue\<close>

text \<open>
  The fields of a \<^verbatim>\<open>RabjQueue\<close>: \<^verbatim>\<open>queue\<close>, \<^verbatim>\<open>threads\<close>,
  \<^verbatim>\<open>_status_fetched\<close> and \<^verbatim>\<open>_status\<close> (here \<open>cached_status\<close>, \<open>JNone\<close>
  for \<^verbatim>\<open>None\<close>).
\<close>

record rabjqueue =
  queue :: json
  threads :: int
  status_fetched :: bool
  cached_status :: json

text \<open>
  \<^verbatim>\<open>RabjQueue.__init__(self, queue=None, server_url=None, id=None, access_key=None,
  threads=1)\<close>.
\<close>

definition RabjQueue_init ::
  "'s remote \<Rightarrow> json \<Rightarrow> json \<Rightarrow> json \<Rightarrow> json \<Rightarrow> int \<Rightarrow> 's world
     \<Rightarrow> (error + rabjqueue) \<times> 's world" where
  "RabjQueue_init srv q server_url qid access_key thr w =
     (if (q \<noteq> JNone) \<noteq> (server_url \<noteq> JNone \<and> qid \<noteq> JNone \<and> access_key \<noteq> JNone) then
        (case (if \<not> truthy q
               then (case call srv (get_request (RabjCallable server_url access_key, [qid])) w of
                       (Inl e, w') \<Rightarrow> (Inl e, w')
                     | (Inr (resp, fetched), w') \<Rightarrow> (Inr fetched, w'))
               else (Inr q, w)) of
           (Inl e, w') \<Rightarrow> (Inl e, w')
         | (Inr q', w') \<Rightarrow>
             (Inr \<lparr>queue = q',
                   threads = (if thr > 1 then 2 else 1),
                   status_fetched = False,
                   cached_status = JNone\<rparr>, w'))
      else (Inl AssertionError, w))"

text \<open>The property \<^verbatim>\<open>parallel\<close>.\<close>

definition parallel :: "rabjqueue \<Rightarrow> bool" where
  "parallel self = False"

text \<open>
  \<^verbatim>\<open>[ rc.get() for rc in rabj_callables ]\<close>: one request after the other, the
  first error ends the comprehension.
\<close>

fun get_each :: "'s remote \<Rightarrow> callable list \<Rightarrow> 's world \<Rightarrow> (error + (json \<times> json) list) \<times> 's world" where
  "get_each srv [] w = (Inr [], w)"
| "get_each srv (rc # rcs) w =
     (case call srv (get_request rc) w of
        (Inl e, w') \<Rightarrow> (Inl e, w')
      | (Inr r, w') \<Rightarrow>
          (case get_each srv rcs w' of
             (Inl e, w'') \<Rightarrow> (Inl e, w'')
           | (Inr rs, w'') \<Rightarrow> (Inr (r # rs), w'')))"

text \<open>
  \<^verbatim>\<open>RabjQueue._get(self, rabj_callables)\<close>. The helper \<^verbatim>\<open>api.parallel_fetch\<close>
  belongs to the HTTP layer; it is the parameter \<open>parallel_fetch\<close>, given the
  requests and the worker count.
\<close>

definition RabjQueue_get ::
  "(request list \<Rightarrow> int \<Rightarrow> 's world \<Rightarrow> (error + (json \<times> json) list) \<times> 's world)
     \<Rightarrow> 's remote \<Rightarrow> rabjqueue \<Rightarrow> callable list \<Rightarrow> 's world
     \<Rightarrow> (error + (json \<times> json) list) \<times> 's world" where
  "RabjQueue_get parallel_fetch srv self rabj_callables w =
     (if parallel self = True
      then parallel_fetch (map get_request rabj_callables) (threads self) w
      else get_each srv rabj_callables w)"

text \<open>The server's state after it has answered a list of requests in order.\<close>

fun run_requests :: "'s remote \<Rightarrow> 's \<Rightarrow> request list \<Rightarrow> 's" where
  "run_requests srv s [] = s"
| "run_requests srv s (rq # rqs) = run_requests srv (snd (srv s rq)) rqs"

subsection \<open>Creating a queue through the server\<close>

text \<open>\<^verbatim>\<open>self.store.queues.post(queue=queue)\<close> for the record built by
  \<^verbatim>\<open>create_queue\<close>.\<close>

definition create_queue_record ::
  "json \<Rightarrow> json \<Rightarrow> int \<Rightarrow> json \<Rightarrow> json \<Rightarrow> (string \<times> json) list \<Rightarrow> (string \<times> json) list" where
  "create_queue_record name owner votes access_key tags meta =
     dict_update [(''name'', name),
                  (''owner'', owner),
                  (''access_key'', access_key),
                  (''votes'', JInt votes),
                  (''tags'', tags)] meta"

definition queues_post :: "rabjserver \<Rightarrow> (string \<times> json) list \<Rightarrow> request" where
  "queues_post self q =
     \<lparr>target = fst (store self), path = snd (store self) @ [JStr ''queues''], meth = POST,
      kwargs = [(''queue'', JDict q)]\<rparr>"

text \<open>
  \<^verbatim>\<open>RabjServer.create_queue(self, name, owner, votes, access_key, tags=None, **meta)\<close>.
  The warning goes to the log and the call goes on.
\<close>

definition create_queue ::
  "'s remote \<Rightarrow> rabjserver \<Rightarrow> json \<Rightarrow> json \<Rightarrow> json \<Rightarrow> json \<Rightarrow> json \<Rightarrow> (string \<times> json) list
     \<Rightarrow> 's world \<Rightarrow> (error + rabjqueue) \<times> 's world" where
  "create_queue srv self name owner votes access_key tags meta w =
     (if rebinds [''self'', ''name'', ''owner'', ''votes'', ''access_key'', ''tags''] meta
      then (Inl TypeError, w)
      else
        (case py_int votes of
           Inl e \<Rightarrow> (Inl e, w)
         | Inr votes_i \<Rightarrow>
             (let w1 = (if access_key = JNone
                        then w\<lparr>logged := logged w @
                               [''You are creating a new queue without providing an access key'']\<rparr>
                        else w);
                  tags1 = (if tags = JNone then JList [] else tags);
                  q = create_queue_record name owner votes_i access_key tags1 meta
              in (case call srv (queues_post self q) w1 of
                    (Inl e, w2) \<Rightarrow> (Inl e, w2)
                  | (Inr (resp, result), w2) \<Rightarrow>
                      RabjQueue_init srv result JNone JNone JNone (server_threads self) w2))))"

subsection \<open>Adding questions\<close>

text \<open>\<^verbatim>\<open>self.queue.questions.post(questions=payload)\<close>\<close>

definition questions_post :: "rabjqueue \<Rightarrow> json list \<Rightarrow> request" where
  "questions_post self payload =
     \<lparr>target = Container (queue self), path = [JStr ''questions''], meth = POST,
      kwargs = [(''questions'', JList payload)]\<rparr>"

text \<open>
  \<^verbatim>\<open>question = { 'assertion': assertion, 'answerspace': answerspace };
  question.update(meta)\<close>
\<close>

definition make_question :: "json \<Rightarrow> json \<Rightarrow> (string \<times> json) list \<Rightarrow> json" where
  "make_question assertion answerspace meta =
     JDict (dict_update [(''assertion'', assertion), (''answerspace'', answerspace)] meta)"

text \<open>\<^verbatim>\<open>RabjQueue.addone(self, assertion, answerspace, **meta)\<close>\<close>

definition addone ::
  "'s remote \<Rightarrow> rabjqueue \<Rightarrow> json \<Rightarrow> json \<Rightarrow> (string \<times> json) list \<Rightarrow> 's world
     \<Rightarrow> (error + json) \<times> 's world" where
  "addone srv self assertion answerspace meta w =
     (if rebinds [''self'', ''assertion'', ''answerspace''] meta then (Inl TypeError, w)
      else
        (case call srv (questions_post self [make_question assertion answerspace meta]) w of
           (Inl e, w') \<Rightarrow> (Inl e, w')
         | (Inr (resp, result), w') \<Rightarrow> (getitem result ''questions'', w')))"

text \<open>
  \<^verbatim>\<open>resp, result = self.queue.questions.post(questions=payload);
  added.extend(result['questions'])\<close>: the two statements \<^verbatim>\<open>addall\<close> runs for a full
  payload inside the loop and for the rest after it. The value is the new \<^verbatim>\<open>added\<close>.
\<close>

definition post_payload ::
  "'s remote \<Rightarrow> rabjqueue \<Rightarrow> json list \<Rightarrow> json list \<Rightarrow> 's world \<Rightarrow> (error + json list) \<times> 's world" where
  "post_payload srv self payload added w =
     (case call srv (questions_post self payload) w of
        (Inl e, w') \<Rightarrow> (Inl e, w')
      | (Inr (resp, result), w') \<Rightarrow>
          (case getitem result ''questions'' of
             Inl e \<Rightarrow> (Inl e, w')
           | Inr qs \<Rightarrow>
               (case py_iter qs of
                  Inl e \<Rightarrow> (Inl e, w')
                | Inr recs \<Rightarrow> (Inr (added @ recs), w'))))"

text \<open>
  The \<^verbatim>\<open>for\<close> loop of \<^verbatim>\<open>addall\<close> over the three-tuples, with the variables
  \<^verbatim>\<open>added\<close> and \<^verbatim>\<open>payload\<close>; its value is the pair of them when the loop ends.
\<close>

type_synonym three_tuple = "json \<times> json \<times> (string \<times> json) list"

fun addall_loop ::
  "'s remote \<Rightarrow> rabjqueue \<Rightarrow> int \<Rightarrow> three_tuple list \<Rightarrow> json list \<Rightarrow> json list \<Rightarrow> 's world
     \<Rightarrow> (error + (json list \<times> json list)) \<times> 's world" where
  "addall_loop srv self pagesize [] added payload w = (Inr (added, payload), w)"
| "addall_loop srv self pagesize ((assertion, answerspace, meta) # rest) added payload w =
     (let payload1 = payload @ [make_question assertion answerspace meta]
      in if int (length payload1) = pagesize
         then (case post_payload srv self payload1 added w of
                 (Inl e, w') \<Rightarrow> (Inl e, w')
               | (Inr added1, w') \<Rightarrow> addall_loop srv self pagesize rest added1 [] w')
         else addall_loop srv self pagesize rest added payload1 w)"

text \<open>\<^verbatim>\<open>RabjQueue.addall(self, three_tuples, pagesize=1000)\<close>\<close>

definition addall ::
  "'s remote \<Rightarrow> rabjqueue \<Rightarrow> three_tuple list \<Rightarrow> int \<Rightarrow> 's world \<Rightarrow> (error + json list) \<times> 's world" where
  "addall srv self three_tuples pagesize w =
     (case addall_loop srv self pagesize three_tuples [] [] w of
        (Inl e, w') \<Rightarrow> (Inl e, w')
      | (Inr (added, payload), w') \<Rightarrow>
          (if length payload \<noteq> 0 then post_payload srv self payload added w'
           else (Inr added, w')))"

text \<open>
  What the claims compare \<^verbatim>\<open>addall\<close> with. \<open>chunks n xs\<close> cuts \<open>xs\<close> into pieces
  of \<open>n\<close> elements, the last one shorter when \<open>n\<close> does not divide the length.
  \<open>post_batches\<close> posts a list of payloads one after the other. \<open>addone_each\<close> calls
  \<^verbatim>\<open>addone\<close> for each three-tuple and concatenates what the calls return.
\<close>

function chunks :: "nat \<Rightarrow> 'a list \<Rightarrow> 'a list list" where
  "chunks n xs = (if n = 0 \<or> xs = [] then [] else take n xs # chunks n (drop n xs))"
  by pat_completeness auto
termination
  by (relation "measure (\<lambda>(n, xs). length xs)") auto

declare chunks.simps [simp del]

fun post_batches ::
  "'s remote \<Rightarrow> rabjqueue \<Rightarrow> json list list \<Rightarrow> json list \<Rightarrow> 's world
     \<Rightarrow> (error + json list) \<times> 's world" where
  "post_batches srv self [] added w = (Inr added, w)"
| "post_batches srv self (b # bs) added w =
     (case post_payload srv self b added w of
        (Inl e, w') \<Rightarrow> (Inl e, w')
      | (Inr added1, w') \<Rightarrow> post_batches srv self bs added1 w')"

fun addone_each ::
  "'s remote \<Rightarrow> rabjqueue \<Rightarrow> three_tuple list \<Rightarrow> 's world \<Rightarrow> (error + json list) \<times> 's world" where
  "addone_each srv self [] w = (Inr [], w)"
| "addone_each srv self ((assertion, answerspace, meta) # rest) w =
     (case addone srv self assertion answerspace meta w of
        (Inl e, w') \<Rightarrow> (Inl e, w')
      | (Inr r, w') \<Rightarrow>
          (case py_iter r of
             Inl e \<Rightarrow> (Inl e, w')
           | Inr recs \<Rightarrow>
               (case addone_each srv self rest w' of
                  (Inl e, w'') \<Rightarrow> (Inl e, w'')
                | (Inr rs, w'') \<Rightarrow> (Inr (recs @ rs), w''))))"

definition question_of :: "three_tuple \<Rightarrow> json" where
  "question_of t = (case t of (assertion, answerspace, meta) \<Rightarrow> make_question assertion answerspace meta)"

text \<open>A three-tuple \<^verbatim>\<open>addone\<close> accepts: its metadata names no parameter of
  \<^verbatim>\<open>addone\<close>.\<close>

definition valid_triple :: "three_tuple \<Rightarrow> bool" where
  "valid_triple t = (\<not> rebinds [''self'', ''assertion'', ''answerspace''] (snd (snd t)))"

text \<open>
  A server that stores the questions of a payload one at a time: \<open>f s q\<close> is the record
  it returns for the question \<open>q\<close> in state \<open>s\<close>, and its next state. It answers a
  POST of a payload with the records of its questions, in order.
\<close>

fun store_all :: "('s \<Rightarrow> json \<Rightarrow> json \<times> 's) \<Rightarrow> 's \<Rightarrow> json list \<Rightarrow> json list \<times> 's" where
  "store_all f s [] = ([], s)"
| "store_all f s (x # xs) =
     (case f s x of (r, s1) \<Rightarrow> (case store_all f s1 xs of (rs, s2) \<Rightarrow> (r # rs, s2)))"

definition stores_questions :: "'s remote \<Rightarrow> rabjqueue \<Rightarrow> ('s \<Rightarrow> json \<Rightarrow> json \<times> 's) \<Rightarrow> bool" where
  "stores_questions srv self f \<longleftrightarrow>
     (\<forall>s payload. \<exists>resp result.
        srv s (questions_post self payload) = (Inr (resp, result), snd (store_all f s payload))
        \<and> getitem result ''questions'' = Inr (JList (fst (store_all f s payload))))"

subsection \<open>Fetching questions\<close>

text \<open>
  The dictionary \<^verbatim>\<open>params\<close> of \<^verbatim>\<open>getall\<close>: \<open>limit\<close> and \<open>offset\<close> always,
  \<open>since\<close>, \<open>judgments\<close> and \<open>body\<close> when the argument is truthy. Only \<open>offset\<close>
  changes in the loop, so the loop carries the offset and builds the dictionary from it.
\<close>

definition getall_params :: "int \<Rightarrow> int \<Rightarrow> json \<Rightarrow> json \<Rightarrow> json \<Rightarrow> (string \<times> json) list" where
  "getall_params limit offset since judgments body =
     [(''limit'', JInt limit), (''offset'', JInt offset)]
     @ (if truthy since then [(''since'', since)] else [])
     @ (if truthy judgments then [(''judgments'', judgments)] else [])
     @ (if truthy body then [(''body'', body)] else [])"

text \<open>
  \<^verbatim>\<open>self.queue.questions[state].get(**params)\<close> when \<^verbatim>\<open>state\<close> is truthy,
  \<^verbatim>\<open>self.queue.questions.get(**params)\<close> otherwise.
\<close>

definition questions_get :: "rabjqueue \<Rightarrow> json \<Rightarrow> (string \<times> json) list \<Rightarrow> request" where
  "questions_get self state params =
     \<lparr>target = Container (queue self),
      path = (if truthy state then [JStr ''questions'', state] else [JStr ''questions'']),
      meth = GET, kwargs = params\<rparr>"

text \<open>\<^verbatim>\<open>RabjQuestion(res) for res in result['questions']\<close>\<close>

fun wrap_questions ::
  "'s remote \<Rightarrow> json list \<Rightarrow> 's world \<Rightarrow> (error + rabjquestion list) \<times> 's world" where
  "wrap_questions srv [] w = (Inr [], w)"
| "wrap_questions srv (res # rest) w =
     (case RabjQuestion_init srv res JNone JNone w of
        (Inl e, w') \<Rightarrow> (Inl e, w')
      | (Inr q, w') \<Rightarrow>
          (case wrap_questions srv rest w' of
             (Inl e, w'') \<Rightarrow> (Inl e, w'')
           | (Inr qs, w'') \<Rightarrow> (Inr (q # qs), w'')))"

text \<open>
  The \<^verbatim>\<open>while True\<close> loop of \<^verbatim>\<open>getall\<close>. Nothing bounds the number of rounds, so
  the value is an option: \<open>None\<close> when the loop never ends.
\<close>

partial_function (option) getall_loop ::
  "'s remote \<Rightarrow> rabjqueue \<Rightarrow> json \<Rightarrow> json \<Rightarrow> json \<Rightarrow> json \<Rightarrow> int \<Rightarrow> int \<Rightarrow> rabjquestion list
     \<Rightarrow> 's world \<Rightarrow> ((error + rabjquestion list) \<times> 's world) option" where
  "getall_loop srv self state body judgments since pagesize offset questions_acc w =
     (case call srv (questions_get self state
                       (getall_params pagesize offset since judgments body)) w of
        (Inl e, w1) \<Rightarrow> Some (Inl e, w1)
      | (Inr (resp, result), w1) \<Rightarrow>
          (case getitem result ''questions'' of
             Inl e \<Rightarrow> Some (Inl e, w1)
           | Inr page \<Rightarrow>
               (case py_iter page of
                  Inl e \<Rightarrow> Some (Inl e, w1)
                | Inr recs \<Rightarrow>
                    (case wrap_questions srv recs w1 of
                       (Inl e, w2) \<Rightarrow> Some (Inl e, w2)
                     | (Inr wrapped, w2) \<Rightarrow>
                         (case py_len page of
                            Inl e \<Rightarrow> Some (Inl e, w2)
                          | Inr n \<Rightarrow>
                              (if n < pagesize
                               then Some (Inr (questions_acc @ wrapped), w2)
                               else getall_loop srv self state body judgments since pagesize
                                      (offset + pagesize) (questions_acc @ wrapped) w2))))))"

text \<open>
  \<^verbatim>\<open>RabjQueue.getall(self, state=None, body=True, judgments=False, since=None,
  pagesize=5000)\<close>
\<close>

definition getall ::
  "'s remote \<Rightarrow> rabjqueue \<Rightarrow> json \<Rightarrow> json \<Rightarrow> json \<Rightarrow> json \<Rightarrow> int \<Rightarrow> 's world
     \<Rightarrow> ((error + rabjquestion list) \<times> 's world) option" where
  "getall srv self state body judgments since pagesize w =
     getall_loop srv self state body judgments since pagesize 0 [] w"

text \<open>
  \<^verbatim>\<open>completed_questions\<close> and \<^verbatim>\<open>incomplete_questions\<close>, each with the parameters
  \<^verbatim>\<open>(self, body=True, judgments=False, since=None, pagesize=5000)\<close>. They call
  \<^verbatim>\<open>self.getall(state=..., since=since, judgments=judgments, pagesize=pagesize)\<close>, so
  \<^verbatim>\<open>getall\<close> runs with its own default for \<^verbatim>\<open>body\<close>, which is \<^verbatim>\<open>True\<close>.
\<close>

definition completed_questions ::
  "'s remote \<Rightarrow> rabjqueue \<Rightarrow> json \<Rightarrow> json \<Rightarrow> json \<Rightarrow> int \<Rightarrow> 's world
     \<Rightarrow> ((error + rabjquestion list) \<times> 's world) option" where
  "completed_questions srv self body judgments since pagesize w =
     getall srv self (JStr ''complete'') (JBool True) judgments since pagesize w"

definition incomplete_questions ::
  "'s remote \<Rightarrow> rabjqueue \<Rightarrow> json \<Rightarrow> json \<Rightarrow> json \<Rightarrow> int \<Rightarrow> 's world
     \<Rightarrow> ((error + rabjquestion list) \<times> 's world) option" where
  "incomplete_questions srv self body judgments since pagesize w =
     getall srv self (JStr ''wanting'') (JBool True) judgments since pagesize w"

text \<open>
  A server that answers the requests \<^verbatim>\<open>getall\<close> sends for the state \<open>state\<close>,
  the filters \<open>since\<close>, \<open>judgments\<close> and \<open>body\<close> and the limit \<open>limit\<close> by
  serving the list \<open>qs\<close> of the questions matching them: at every offset, in whatever
  state it is, it returns the \<open>limit\<close> entries of \<open>qs\<close> from that offset on (fewer
  at the end of the list).
\<close>

definition serves_pages ::
  "'s remote \<Rightarrow> rabjqueue \<Rightarrow> json \<Rightarrow> json \<Rightarrow> json \<Rightarrow> json \<Rightarrow> int \<Rightarrow> json list \<Rightarrow> bool" where
  "serves_pages srv self state since judgments body limit qs \<longleftrightarrow>
     (\<forall>s off. \<exists>resp result s'.
        srv s (questions_get self state (getall_params limit (int off) since judgments body))
          = (Inr (resp, result), s')
        \<and> getitem result ''questions'' = Inr (JList (take (nat limit) (drop off qs))))"

text \<open>
  \<^verbatim>\<open>RabjQueue.getone(self, question=None)\<close>. In the branch without an argument,
  \<^verbatim>\<open>self.queue.questions.get(limit=1)[0]\<close> is the first component of the pair the call
  returns, the response metadata, and \<^verbatim>\<open>['id']\<close> is looked up there; what is found is
  unpacked into \<^verbatim>\<open>resp, question\<close>.
\<close>

definition getone ::
  "'s remote \<Rightarrow> rabjqueue \<Rightarrow> json \<Rightarrow> 's world \<Rightarrow> (error + rabjquestion) \<times> 's world" where
  "getone srv self q w =
     (if q \<noteq> JNone then
        (case isinstance q (ClassList [Basestring, Dict]) of
           Inl e \<Rightarrow> (Inl e, w)
         | Inr ok \<Rightarrow>
             (if \<not> ok then (Inl AssertionError, w)
              else
                (case isinstance q (Class Dict) of
                   Inl e \<Rightarrow> (Inl e, w)
                 | Inr is_dict \<Rightarrow>
                     (case (if is_dict then getitem q ''id'' else Inr q) of
                        Inl e \<Rightarrow> (Inl e, w)
                      | Inr questionid \<Rightarrow>
                          (case call srv (get_request (Container (queue self),
                                                       [JStr ''../../../'', questionid])) w of
                             (Inl e, w') \<Rightarrow> (Inl e, w')
                           | (Inr (resp, fetched), w') \<Rightarrow>
                               RabjQuestion_init srv fetched JNone JNone w')))))
      else
        (case call srv \<lparr>target = Container (queue self), path = [JStr ''questions''],
                        meth = GET, kwargs = [(''limit'', JInt 1)]\<rparr> w of
           (Inl e, w') \<Rightarrow> (Inl e, w')
         | (Inr (resp, result), w') \<Rightarrow>
             (case getitem resp ''id'' of
                Inl e \<Rightarrow> (Inl e, w')
              | Inr v \<Rightarrow>
                  (case unpack2 v of
                     Inl e \<Rightarrow> (Inl e, w')
                   | Inr (resp2, fetched) \<Rightarrow>
                       RabjQuestion_init srv fetched JNone JNone w'))))"

subsection \<open>Status and its cache\<close>

text \<open>\<^verbatim>\<open>self.queue.status.get(**kwargs)\<close>\<close>

definition status_request :: "rabjqueue \<Rightarrow> (string \<times> json) list \<Rightarrow> request" where
  "status_request self kw =
     \<lparr>target = Container (queue self), path = [JStr ''status''], meth = GET, kwargs = kw\<rparr>"

text \<open>
  \<^verbatim>\<open>RabjQueue.status(self, **kwargs)\<close>. A keyword argument named \<open>self\<close> cannot
  be bound: the call is a \<open>TypeError\<close> and the body does not run. \<^verbatim>\<open>qstat.get\<close>
  exists on a dictionary only.
\<close>

definition status ::
  "'s remote \<Rightarrow> rabjqueue \<Rightarrow> (string \<times> json) list \<Rightarrow> 's world \<Rightarrow> (error + json) \<times> 's world" where
  "status srv self kw w =
     (if rebinds [''self''] kw then (Inl TypeError, w)
      else
        (case call srv (status_request self kw) w of
           (Inl e, w') \<Rightarrow> (Inl e, w')
         | (Inr (resp, result), w') \<Rightarrow>
             (case getitem result ''status'' of
                Inl e \<Rightarrow> (Inl e, w')
              | Inr (JDict qstat) \<Rightarrow>
                  (let judgments_v = dict_get qstat ''judgments'' (JInt 0);
                       complete_v = dict_get qstat ''complete'' (JInt 0);
                       incomplete_v = dict_get qstat ''wanting'' (JInt 0);
                       started_v = dict_get qstat ''started'' (JInt 0)
                   in (case py_add complete_v incomplete_v of
                         Inl e \<Rightarrow> (Inl e, w')
                       | Inr questions_v \<Rightarrow>
                           (Inr (JDict [(''judgments'', judgments_v),
                                        (''complete'', complete_v),
                                        (''incomplete'', incomplete_v),
                                        (''started'', started_v),
                                        (''questions'', questions_v)]), w')))
              | Inr _ \<Rightarrow> (Inl AttributeError, w'))))"

text \<open>
  \<^verbatim>\<open>statusonce\<close> and \<^verbatim>\<open>resetstatus\<close> write the object's fields, so they return the
  object next to the world; an exception leaves the fields as they were.
\<close>

definition statusonce ::
  "'s remote \<Rightarrow> rabjqueue \<Rightarrow> 's world \<Rightarrow> (error + json) \<times> rabjqueue \<times> 's world" where
  "statusonce srv self w =
     (if \<not> status_fetched self then
        (case status srv self [] w of
           (Inl e, w') \<Rightarrow> (Inl e, self, w')
         | (Inr st, w') \<Rightarrow>
             (Inr st, self\<lparr>cached_status := st, status_fetched := True\<rparr>, w'))
      else (Inr (cached_status self), self, w))"

definition resetstatus :: "rabjqueue \<Rightarrow> rabjqueue" where
  "resetstatus self = self\<lparr>status_fetched := False, cached_status := JNone\<rparr>"

text \<open>
  The five properties have one body, \<^verbatim>\<open>status = self.statusonce(); return
  status[name]\<close>, with their own field name.
\<close>

definition status_field ::
  "string \<Rightarrow> 's remote \<Rightarrow> rabjqueue \<Rightarrow> 's world \<Rightarrow> (error + json) \<times> rabjqueue \<times> 's world" where
  "status_field name srv self w =
     (case statusonce srv self w of
        (Inl e, self', w') \<Rightarrow> (Inl e, self', w')
      | (Inr st, self', w') \<Rightarrow> (getitem st name, self', w'))"

definition questions ::
  "'s remote \<Rightarrow> rabjqueue \<Rightarrow> 's world \<Rightarrow> (error + json) \<times> rabjqueue \<times> 's world" where
  "questions = status_field ''questions''"

definition complete ::
  "'s remote \<Rightarrow> rabjqueue \<Rightarrow> 's world \<Rightarrow> (error + json) \<times> rabjqueue \<times> 's world" where
  "complete = status_field ''complete''"

definition incomplete ::
  "'s remote \<Rightarrow> rabjqueue \<Rightarrow> 's world \<Rightarrow> (error + json) \<times> rabjqueue \<times> 's world" where
  "incomplete = status_field ''incomplete''"

definition started ::
  "'s remote \<Rightarrow> rabjqueue \<Rightarrow> 's world \<Rightarrow> (error + json) \<times> rabjqueue \<times> 's world" where
  "started = status_field ''started''"

definition judgments ::
  "'s remote \<Rightarrow> rabjqueue \<Rightarrow> 's world \<Rightarrow> (error + json) \<times> rabjqueue \<times> 's world" where
  "judgments = status_field ''judgments''"

text \<open>A caller reading properties one after the other.\<close>

datatype status_prop = Questions | Complete | Incomplete | Started | Judgments

fun field_name :: "status_prop \<Rightarrow> string" where
  "field_name Questions = ''questions''"
| "field_name Complete = ''complete''"
| "field_name Incomplete = ''incomplete''"
| "field_name Started = ''started''"
| "field_name Judgments = ''judgments''"

fun access ::
  "status_prop \<Rightarrow> 's remote \<Rightarrow> rabjqueue \<Rightarrow> 's world \<Rightarrow> (error + json) \<times> rabjqueue \<times> 's world" where
  "access Questions = questions"
| "access Complete = complete"
| "access Incomplete = incomplete"
| "access Started = started"
| "access Judgments = judgments"

fun access_seq ::
  "'s remote \<Rightarrow> status_prop list \<Rightarrow> rabjqueue \<Rightarrow> 's world \<Rightarrow> (error + json) list \<times> rabjqueue \<times> 's world" where
  "access_seq srv [] self w = ([], self, w)"
| "access_seq srv (p # ps) self w =
     (case access p srv self w of
        (r, self', w') \<Rightarrow>
          (case access_seq srv ps self' w' of
             (rs, self'', w'') \<Rightarrow> (r # rs, self'', w'')))"

section \<open>Servers used in the examples\<close>

text \<open>A server that answers every request with the body \<open>b\<close> and counts requests.\<close>

definition const_server :: "json \<Rightarrow> nat remote" where
  "const_server b s rq = (Inr (JDict [], b), Suc s)"

definition world0 :: "nat world" where
  "world0 = \<lparr>server_state = 0, sent = [], logged = []\<rparr>"

definition no_parallel_fetch ::
  "request list \<Rightarrow> int \<Rightarrow> nat world \<Rightarrow> (error + (json \<times> json) list) \<times> nat world" where
  "no_parallel_fetch rqs n w = (Inl (Remote ''no pool''), w)"

definition queue_rec :: json where
  "queue_rec = JDict [(''id'', JStr ''/rabj/store/queues/q1'')]"

definition two_callables :: "callable list" where
  "two_callables = [(Container queue_rec, [JStr ''questions'']), (Container queue_rec, [JStr ''status''])]"

definition status_body :: json where
  "status_body =
     JDict [(''status'', JDict [(''judgments'', JInt 7), (''complete'', JInt 3), (''wanting'', JInt 2)])]"

definition null_status_body :: json where
  "null_status_body = JDict [(''status'', JDict [(''complete'', JNone), (''wanting'', JInt 2)])]"

definition queue1 :: rabjqueue where
  "queue1 = \<lparr>queue = queue_rec, threads = 1, status_fetched = False, cached_status = JNone\<rparr>"

definition simple_status1 :: json where
  "simple_status1 =
     JDict [(''judgments'', JInt 7), (''complete'', JInt 3), (''incomplete'', JInt 2),
            (''started'', JInt 0), (''questions'', JInt 5)]"

definition queue1_cached :: rabjqueue where
  "queue1_cached =
     \<lparr>queue = queue_rec, threads = 1, status_fetched = True, cached_status = simple_status1\<rparr>"

definition world1 :: "nat world" where
  "world1 = \<lparr>server_state = 1, sent = [status_request queue1 []], logged = []\<rparr>"

definition server1 :: rabjserver where
  "server1 = RabjServer_init ''http://h/rabj/store/'' ''rabj/store/''"

text \<open>A server that numbers the questions posted to it.\<close>

definition number_question :: "nat \<Rightarrow> json \<Rightarrow> json \<times> nat" where
  "number_question n q = (JDict [(''id'', JInt (int n)), (''question'', q)], Suc n)"

definition numbering_server :: "nat remote" where
  "numbering_server s rq =
     (case kwargs rq of
        [(k, JList payload)] \<Rightarrow>
          (Inr (JDict [],
                JDict [(''questions'', JList (fst (store_all number_question s payload)))]),
           snd (store_all number_question s payload))
      | _ \<Rightarrow> (Inl (Remote ''bad request''), s))"

definition triple_a1 :: three_tuple where
  "triple_a1 = (JStr ''a1'', JStr ''bool'', [])"

definition triple_a2 :: three_tuple where
  "triple_a2 = (JStr ''a2'', JStr ''bool'', [])"

definition triple_a3 :: three_tuple where
  "triple_a3 = (JStr ''a3'', JStr ''bool'', [(''source'', JStr ''doc'')])"

text \<open>A server that serves the list \<open>qs\<close> by offset and limit.\<close>

definition paging_server :: "json list \<Rightarrow> nat remote" where
  "paging_server qs s rq =
     (case (map_of (kwargs rq) ''limit'', map_of (kwargs rq) ''offset'') of
        (Some (JInt l), Some (JInt off)) \<Rightarrow>
          (Inr (JDict [], JDict [(''questions'', JList (take (nat l) (drop (nat off) qs)))]),
           Suc s)
      | _ \<Rightarrow> (Inl (Remote ''bad request''), s))"

definition three_records :: "json list" where
  "three_records =
     [JDict [(''id'', JStr ''q1'')], JDict [(''id'', JStr ''q2'')], JDict [(''id'', JStr ''q3'')]]"

text \<open>
  A server that returns the whole record of its one question when the request carries a
  \<open>body\<close> parameter, and the id alone when it does not.
\<close>

definition body_server :: "nat remote" where
  "body_server s rq =
     (case (map_of (kwargs rq) ''limit'', map_of (kwargs rq) ''offset'') of
        (Some (JInt l), Some (JInt off)) \<Rightarrow>
          (Inr (JDict [],
                JDict [(''questions'',
                        JList (take (nat l) (drop (nat off)
                          (case map_of (kwargs rq) ''body'' of
                             Some b \<Rightarrow> [JDict [(''id'', JStr ''q1''), (''assertion'', JStr ''a1'')]]
                           | None \<Rightarrow> [JDict [(''id'', JStr ''q1'')]]))))]),
           Suc s)
      | _ \<Rightarrow> (Inl (Remote ''bad request''), s))"

section \<open>Properties\<close>

subsection \<open>Base URL normalisation\<close>

lemma server_RabjServer_init:
  "server (RabjServer_init u sp) =
     (if endswith u ''/rabj/store/'' then slice_to_neg u 11
      else if endswith u ''/rabj/'' then slice_to_neg u 5
      else u)"
  by (simp add: RabjServer_init_def Let_def)

lemma endswith_append [simp]: "endswith (p @ t) t"
  by (simp add: endswith_def suffix_def)

lemma slice_to_neg_append: "length t = n \<Longrightarrow> slice_to_neg (p @ t) n = p"
  by (simp add: slice_to_neg_def)

lemma not_store_and_rabj:
  "\<not> endswith (p @ ''/rabj/'') ''/rabj/store/''"
proof
  assume "endswith (p @ ''/rabj/'') ''/rabj/store/''"
  then obtain z where z: "p @ ''/rabj/'' = z @ ''/rabj/store/''"
    by (auto simp: endswith_def suffix_def)
  then have "rev (p @ ''/rabj/'') = rev (z @ ''/rabj/store/'')" by simp
  then show False by simp
qed

text \<open>
  C5, as the code has it. The slices drop 11 and 5 characters, one fewer than the
  suffixes tested for, so the slash that starts the suffix stays: an input
  \<open>p/rabj/store/\<close> or \<open>p/rabj/\<close> is stored as \<open>p/\<close>, and any other input is stored
  unchanged.
\<close>

theorem RabjServer_init_normalises:
  "server (RabjServer_init (p @ ''/rabj/store/'') sp) = p @ ''/''
   \<and> server (RabjServer_init (p @ ''/rabj/'') sp) = p @ ''/''
   \<and> (\<not> endswith u ''/rabj/store/'' \<and> \<not> endswith u ''/rabj/''
        \<longrightarrow> server (RabjServer_init u sp) = u)"
proof (intro conjI impI)
  have "p @ ''/rabj/store/'' = (p @ ''/'') @ ''rabj/store/''" by simp
  then have "slice_to_neg (p @ ''/rabj/store/'') 11 = p @ ''/''"
    using slice_to_neg_append [of "''rabj/store/''" 11 "p @ ''/''"] by simp
  moreover have "endswith (p @ ''/rabj/store/'') ''/rabj/store/''" by simp
  ultimately show "server (RabjServer_init (p @ ''/rabj/store/'') sp) = p @ ''/''"
    by (simp add: server_RabjServer_init)
next
  have "p @ ''/rabj/'' = (p @ ''/'') @ ''rabj/''" by simp
  then have "slice_to_neg (p @ ''/rabj/'') 5 = p @ ''/''"
    using slice_to_neg_append [of "''rabj/''" 5 "p @ ''/''"] by simp
  moreover have "endswith (p @ ''/rabj/'') ''/rabj/''" by simp
  ultimately show "server (RabjServer_init (p @ ''/rabj/'') sp) = p @ ''/''"
    using not_store_and_rabj [of p] by (simp add: server_RabjServer_init)
next
  assume "\<not> endswith u ''/rabj/store/'' \<and> \<not> endswith u ''/rabj/''"
  then show "server (RabjServer_init u sp) = u"
    by (simp add: server_RabjServer_init)
qed

theorem RabjServer_init_normalises_witness:
  "server (RabjServer_init ''http://h/rabj/store/'' ''rabj/store/'') = ''http://h/''
   \<and> server (RabjServer_init ''http://h/rabj/'' ''rabj/store/'') = ''http://h/''
   \<and> \<not> endswith ''http://h/'' ''/rabj/store/'' \<and> \<not> endswith ''http://h/'' ''/rabj/''
   \<and> server (RabjServer_init ''http://h/'' ''rabj/store/'') = ''http://h/''"
proof -
  have a: "\<not> endswith ''http://h/'' ''/rabj/store/''"
    by (simp add: endswith_def suffix_to_prefix)
  have b: "\<not> endswith ''http://h/'' ''/rabj/''"
    by (simp add: endswith_def suffix_to_prefix)
  show ?thesis
    using RabjServer_init_normalises [of "''http://h''" "''rabj/store/''" "''http://h/''"] a b
    by simp
qed

text \<open>
  The claim as written (the whole suffix \<open>/rabj/store/\<close> is stripped) fails: the
  stored URL keeps the slash.
\<close>

theorem RabjServer_init_strip_counterexample:
  "server (RabjServer_init ''http://h/rabj/store/'' ''rabj/store/'') = ''http://h/''
   \<and> server (RabjServer_init ''http://h/rabj/store/'' ''rabj/store/'') \<noteq> ''http://h''"
  by (simp add: server_RabjServer_init endswith_def slice_to_neg_def suffix_to_prefix)

subsection \<open>Construction of handles\<close>

text \<open>
  C7. A \<^verbatim>\<open>RabjQuestion\<close> is built from a record, or from a server reference together
  with an id; a \<^verbatim>\<open>RabjQueue\<close> from a record, or from a server URL together with an id
  and an access key. When both forms are given, or neither, construction fails at once
  with \<open>AssertionError\<close> and the world is as it was (no request was issued); hence
  construction succeeds only when exactly one form is given.
\<close>

theorem init_exactly_one_form:
  "(q \<noteq> JNone \<and> sref \<noteq> JNone \<and> qid \<noteq> JNone
      \<longrightarrow> RabjQuestion_init srv q sref qid w = (Inl AssertionError, w))
   \<and> (q = JNone \<and> \<not> (sref \<noteq> JNone \<and> qid \<noteq> JNone)
      \<longrightarrow> RabjQuestion_init srv q sref qid w = (Inl AssertionError, w))
   \<and> (fst (RabjQuestion_init srv q sref qid w) = Inr obj
      \<longrightarrow> (q \<noteq> JNone) \<noteq> (sref \<noteq> JNone \<and> qid \<noteq> JNone))
   \<and> (q \<noteq> JNone \<and> surl \<noteq> JNone \<and> qid \<noteq> JNone \<and> key \<noteq> JNone
      \<longrightarrow> RabjQueue_init srv q surl qid key thr w = (Inl AssertionError, w))
   \<and> (q = JNone \<and> \<not> (surl \<noteq> JNone \<and> qid \<noteq> JNone \<and> key \<noteq> JNone)
      \<longrightarrow> RabjQueue_init srv q surl qid key thr w = (Inl AssertionError, w))
   \<and> (fst (RabjQueue_init srv q surl qid key thr w) = Inr qobj
      \<longrightarrow> (q \<noteq> JNone) \<noteq> (surl \<noteq> JNone \<and> qid \<noteq> JNone \<and> key \<noteq> JNone))"
proof (intro conjI impI)
  show "fst (RabjQuestion_init srv q sref qid w) = Inr obj
        \<Longrightarrow> (q \<noteq> JNone) \<noteq> (sref \<noteq> JNone \<and> qid \<noteq> JNone)"
    by (auto simp: RabjQuestion_init_def split: if_splits)
  show "fst (RabjQueue_init srv q surl qid key thr w) = Inr qobj
        \<Longrightarrow> (q \<noteq> JNone) \<noteq> (surl \<noteq> JNone \<and> qid \<noteq> JNone \<and> key \<noteq> JNone)"
    by (auto simp: RabjQueue_init_def split: if_splits)
qed (auto simp: RabjQuestion_init_def RabjQueue_init_def)

theorem init_exactly_one_form_witness:
  "RabjQuestion_init (const_server JNone) (JDict [(''id'', JStr ''q1'')]) (JStr ''http://h/'')
       (JStr ''q1'') world0 = (Inl AssertionError, world0)
   \<and> RabjQuestion_init (const_server JNone) JNone (JStr ''http://h/'') JNone world0
       = (Inl AssertionError, world0)
   \<and> fst (RabjQuestion_init (const_server JNone) (JDict [(''id'', JStr ''q1'')]) JNone JNone world0)
       = Inr \<lparr>question = JDict [(''id'', JStr ''q1'')]\<rparr>
   \<and> RabjQueue_init (const_server JNone) (JDict [(''id'', JStr ''q1'')]) (JStr ''http://h/'')
       (JStr ''q1'') (JStr ''k'') 1 world0 = (Inl AssertionError, world0)
   \<and> RabjQueue_init (const_server JNone) JNone JNone (JStr ''q1'') (JStr ''k'') 1 world0
       = (Inl AssertionError, world0)
   \<and> fst (RabjQueue_init (const_server JNone) (JDict [(''id'', JStr ''q1'')]) JNone JNone JNone 1
            world0)
       = Inr \<lparr>queue = JDict [(''id'', JStr ''q1'')], threads = 1, status_fetched = False,
              cached_status = JNone\<rparr>"
proof -
  have a: "fst (RabjQuestion_init (const_server JNone) (JDict [(''id'', JStr ''q1'')]) JNone JNone
                 world0) = Inr \<lparr>question = JDict [(''id'', JStr ''q1'')]\<rparr>"
    by (simp add: RabjQuestion_init_def)
  have b: "fst (RabjQueue_init (const_server JNone) (JDict [(''id'', JStr ''q1'')]) JNone JNone
                 JNone 1 world0)
           = Inr \<lparr>queue = JDict [(''id'', JStr ''q1'')], threads = 1, status_fetched = False,
                  cached_status = JNone\<rparr>"
    by (simp add: RabjQueue_init_def)
  have c: "RabjQuestion_init (const_server JNone) JNone (JStr ''http://h/'') JNone world0
             = (Inl AssertionError, world0)"
    using init_exactly_one_form
            [of JNone "JStr ''http://h/''" JNone "const_server JNone" world0]
    by simp
  have d: "RabjQueue_init (const_server JNone) JNone JNone (JStr ''q1'') (JStr ''k'') 1 world0
             = (Inl AssertionError, world0)"
    using init_exactly_one_form
            [of JNone _ "JStr ''q1''" "const_server JNone" world0 _ JNone "JStr ''k''" 1]
    by simp
  show ?thesis
    using init_exactly_one_form
            [of "JDict [(''id'', JStr ''q1'')]" "JStr ''http://h/''" "JStr ''q1''"
                "const_server JNone" world0 _ "JStr ''http://h/''" "JStr ''k''" 1]
          a b c d
    by simp
qed

subsection \<open>Worker count and sequential fetch\<close>

lemma get_each_sent:
  "get_each srv rcs w = (Inr rs, w') \<Longrightarrow>
     length rs = length rcs
     \<and> sent w' = sent w @ map get_request rcs
     \<and> logged w' = logged w
     \<and> server_state w' = run_requests srv (server_state w) (map get_request rcs)"
proof (induction rcs arbitrary: w rs w')
  case Nil
  then show ?case by simp
next
  case (Cons rc rcs)
  obtain r w1 where c: "call srv (get_request rc) w = (Inr r, w1)"
    using Cons.prems by (auto split: prod.splits sum.splits)
  obtain rs1 where g: "get_each srv rcs w1 = (Inr rs1, w')" and rs: "rs = r # rs1"
    using Cons.prems c by (auto split: prod.splits sum.splits)
  have w1: "sent w1 = sent w @ [get_request rc]" "logged w1 = logged w"
    "server_state w1 = snd (srv (server_state w) (get_request rc))"
    using c by (auto simp: call_def split: prod.splits)
  from Cons.IH [OF g] w1 rs show ?case by simp
qed

lemma get_each_aligned:
  "get_each srv rcs w = (Inr rs, w') \<Longrightarrow> i < length rcs \<Longrightarrow>
     fst (srv (run_requests srv (server_state w) (map get_request (take i rcs)))
              (get_request (rcs ! i))) = Inr (rs ! i)"
proof (induction rcs arbitrary: w rs w' i)
  case Nil
  then show ?case by simp
next
  case (Cons rc rcs)
  obtain r w1 where c: "call srv (get_request rc) w = (Inr r, w1)"
    using Cons.prems(1) by (auto split: prod.splits sum.splits)
  obtain rs1 where g: "get_each srv rcs w1 = (Inr rs1, w')" and rs: "rs = r # rs1"
    using Cons.prems(1) c by (auto split: prod.splits sum.splits)
  have w1: "server_state w1 = snd (srv (server_state w) (get_request rc))"
    "fst (srv (server_state w) (get_request rc)) = Inr r"
    using c by (auto simp: call_def split: prod.splits)
  show ?case
  proof (cases i)
    case 0
    with w1 rs show ?thesis by simp
  next
    case (Suc j)
    with Cons.prems(2) have "j < length rcs" by simp
    from Cons.IH [OF g this] w1 rs Suc show ?thesis by simp
  qed
qed

lemma call_fst_snd:
  "call srv rq w = (fst (srv (server_state w) rq),
                    w\<lparr>server_state := snd (srv (server_state w) rq), sent := sent w @ [rq]\<rparr>)"
  by (simp add: call_def split: prod.splits)

lemma get_each_answered:
  "length rs = length rcs \<Longrightarrow>
   (\<forall>i < length rcs.
      fst (srv (run_requests srv (server_state w) (map get_request (take i rcs)))
               (get_request (rcs ! i))) = Inr (rs ! i)) \<Longrightarrow>
   get_each srv rcs w
     = (Inr rs, w\<lparr>server_state := run_requests srv (server_state w) (map get_request rcs),
                  sent := sent w @ map get_request rcs\<rparr>)"
proof (induction rcs arbitrary: rs w)
  case Nil
  then show ?case by simp
next
  case (Cons rc rcs)
  from Cons.prems(1) obtain r rs1 where rs: "rs = r # rs1" and len: "length rs1 = length rcs"
    by (cases rs) auto
  let ?w1 = "w\<lparr>server_state := snd (srv (server_state w) (get_request rc)),
               sent := sent w @ [get_request rc]\<rparr>"
  from Cons.prems(2) [rule_format, of 0] rs
  have first: "fst (srv (server_state w) (get_request rc)) = Inr r" by simp
  have rest: "\<forall>i < length rcs.
      fst (srv (run_requests srv (server_state ?w1) (map get_request (take i rcs)))
               (get_request (rcs ! i))) = Inr (rs1 ! i)"
  proof (intro allI impI)
    fix i assume "i < length rcs"
    with Cons.prems(2) [rule_format, of "Suc i"] rs
    show "fst (srv (run_requests srv (server_state ?w1) (map get_request (take i rcs)))
               (get_request (rcs ! i))) = Inr (rs1 ! i)" by simp
  qed
  from Cons.IH [OF len rest] first rs show ?case
    by (simp add: call_fst_snd)
qed

lemma get_each_fails:
  "i < length rcs \<Longrightarrow>
   (\<forall>j < i. \<exists>r.
      fst (srv (run_requests srv (server_state w) (map get_request (take j rcs)))
               (get_request (rcs ! j))) = Inr r) \<Longrightarrow>
   fst (srv (run_requests srv (server_state w) (map get_request (take i rcs)))
            (get_request (rcs ! i))) = Inl e \<Longrightarrow>
   get_each srv rcs w
     = (Inl e, w\<lparr>server_state :=
                    run_requests srv (server_state w) (map get_request (take (Suc i) rcs)),
                  sent := sent w @ map get_request (take (Suc i) rcs)\<rparr>)"
proof (induction rcs arbitrary: i w)
  case Nil
  then show ?case by simp
next
  case (Cons rc rcs)
  let ?w1 = "w\<lparr>server_state := snd (srv (server_state w) (get_request rc)),
               sent := sent w @ [get_request rc]\<rparr>"
  show ?case
  proof (cases i)
    case 0
    with Cons.prems(3) have "fst (srv (server_state w) (get_request rc)) = Inl e" by simp
    with 0 show ?thesis by (simp add: call_fst_snd)
  next
    case (Suc k)
    with Cons.prems(1) have k: "k < length rcs" by simp
    from Cons.prems(2) [rule_format, of 0] Suc
    obtain r where first: "fst (srv (server_state w) (get_request rc)) = Inr r" by auto
    have before: "\<forall>j < k. \<exists>r.
      fst (srv (run_requests srv (server_state ?w1) (map get_request (take j rcs)))
               (get_request (rcs ! j))) = Inr r"
    proof (intro allI impI)
      fix j assume "j < k"
      with Cons.prems(2) [rule_format, of "Suc j"] Suc
      show "\<exists>r. fst (srv (run_requests srv (server_state ?w1) (map get_request (take j rcs)))
               (get_request (rcs ! j))) = Inr r" by simp
    qed
    have fails: "fst (srv (run_requests srv (server_state ?w1) (map get_request (take k rcs)))
            (get_request (rcs ! k))) = Inl e"
      using Cons.prems(3) Suc by simp
    from Cons.IH [OF k before fails] first Suc show ?thesis
      by (simp add: call_fst_snd)
  qed
qed

lemma get_request_eq:
  "get_request = (\<lambda>rc. \<lparr>target = fst rc, path = snd rc, meth = GET, kwargs = []\<rparr>)"
  by (rule ext) (simp add: get_request_def)

text \<open>
  C10. A queue that was constructed stores 2 workers when \<open>threads > 1\<close> and 1
  otherwise; \<open>parallel\<close> is \<open>False\<close>; so \<^verbatim>\<open>_get\<close> is the sequential comprehension
  whatever the parallel helper is. It issues a GET with no arguments on each callable, in
  input order, each after the server has answered the ones before it. When the server
  answers every one of them, \<^verbatim>\<open>_get\<close> returns the list of the answers, entry \<open>i\<close>
  being the answer to callable \<open>i\<close>, and exactly these requests were issued. When the
  GET of callable \<open>k\<close> is the first to fail, \<^verbatim>\<open>_get\<close> raises that error and the
  requests issued are those of the callables up to \<open>k\<close>. Whenever \<^verbatim>\<open>_get\<close> returns
  a list, it has one entry for each callable, aligned in this way.
\<close>

theorem threads_clamped_get_sequential:
  "(RabjQueue_init srv q surl qid key thr w0 = (Inr self, w1)
      \<longrightarrow> threads self = (if thr > 1 then 2 else 1))
   \<and> parallel self' = False
   \<and> RabjQueue_get pf srv self' rcs w = get_each srv rcs w
   \<and> (length rs = length rcs
       \<and> (\<forall>i < length rcs.
             fst (srv (run_requests srv (server_state w)
                         (map (\<lambda>rc. \<lparr>target = fst rc, path = snd rc, meth = GET, kwargs = []\<rparr>)
                              (take i rcs)))
                      \<lparr>target = fst (rcs ! i), path = snd (rcs ! i), meth = GET, kwargs = []\<rparr>)
               = Inr (rs ! i))
      \<longrightarrow> RabjQueue_get pf srv self' rcs w
            = (Inr rs,
               w\<lparr>server_state :=
                    run_requests srv (server_state w)
                      (map (\<lambda>rc. \<lparr>target = fst rc, path = snd rc, meth = GET, kwargs = []\<rparr>) rcs),
                  sent := sent w @
                      map (\<lambda>rc. \<lparr>target = fst rc, path = snd rc, meth = GET, kwargs = []\<rparr>) rcs\<rparr>))
   \<and> (k < length rcs
       \<and> (\<forall>j < k. \<exists>r.
             fst (srv (run_requests srv (server_state w)
                         (map (\<lambda>rc. \<lparr>target = fst rc, path = snd rc, meth = GET, kwargs = []\<rparr>)
                              (take j rcs)))
                      \<lparr>target = fst (rcs ! j), path = snd (rcs ! j), meth = GET, kwargs = []\<rparr>)
               = Inr r)
       \<and> fst (srv (run_requests srv (server_state w)
                      (map (\<lambda>rc. \<lparr>target = fst rc, path = snd rc, meth = GET, kwargs = []\<rparr>)
                           (take k rcs)))
                   \<lparr>target = fst (rcs ! k), path = snd (rcs ! k), meth = GET, kwargs = []\<rparr>)
             = Inl e
      \<longrightarrow> RabjQueue_get pf srv self' rcs w
            = (Inl e,
               w\<lparr>server_state :=
                    run_requests srv (server_state w)
                      (map (\<lambda>rc. \<lparr>target = fst rc, path = snd rc, meth = GET, kwargs = []\<rparr>)
                           (take (Suc k) rcs)),
                  sent := sent w @
                      map (\<lambda>rc. \<lparr>target = fst rc, path = snd rc, meth = GET, kwargs = []\<rparr>)
                          (take (Suc k) rcs)\<rparr>))
   \<and> (RabjQueue_get pf srv self' rcs w = (Inr rs', w')
      \<longrightarrow> length rs' = length rcs
          \<and> sent w' = sent w @
                map (\<lambda>rc. \<lparr>target = fst rc, path = snd rc, meth = GET, kwargs = []\<rparr>) rcs
          \<and> (\<forall>i < length rcs.
                fst (srv (run_requests srv (server_state w)
                            (map (\<lambda>rc. \<lparr>target = fst rc, path = snd rc, meth = GET, kwargs = []\<rparr>)
                                 (take i rcs)))
                         \<lparr>target = fst (rcs ! i), path = snd (rcs ! i), meth = GET, kwargs = []\<rparr>)
                  = Inr (rs' ! i)))"
proof -
  have clamp: "RabjQueue_init srv q surl qid key thr w0 = (Inr self, w1)
      \<longrightarrow> threads self = (if thr > 1 then 2 else 1)"
    by (auto simp: RabjQueue_init_def split: if_splits prod.splits sum.splits)
  have par: "parallel self' = False" by (simp add: parallel_def)
  have eq: "RabjQueue_get pf srv self' rcs w = get_each srv rcs w"
    by (simp add: RabjQueue_get_def parallel_def)
  have total: "length rs = length rcs
       \<and> (\<forall>i < length rcs.
             fst (srv (run_requests srv (server_state w) (map get_request (take i rcs)))
                      (get_request (rcs ! i))) = Inr (rs ! i))
      \<longrightarrow> RabjQueue_get pf srv self' rcs w
            = (Inr rs,
               w\<lparr>server_state := run_requests srv (server_state w) (map get_request rcs),
                  sent := sent w @ map get_request rcs\<rparr>)"
    unfolding eq using get_each_answered [of rs rcs srv w] by blast
  have fails: "k < length rcs
       \<and> (\<forall>j < k. \<exists>r.
             fst (srv (run_requests srv (server_state w) (map get_request (take j rcs)))
                      (get_request (rcs ! j))) = Inr r)
       \<and> fst (srv (run_requests srv (server_state w) (map get_request (take k rcs)))
                   (get_request (rcs ! k))) = Inl e
      \<longrightarrow> RabjQueue_get pf srv self' rcs w
            = (Inl e,
               w\<lparr>server_state :=
                    run_requests srv (server_state w) (map get_request (take (Suc k) rcs)),
                  sent := sent w @ map get_request (take (Suc k) rcs)\<rparr>)"
    unfolding eq using get_each_fails [of k rcs srv w e] by blast
  have ret: "RabjQueue_get pf srv self' rcs w = (Inr rs', w')
      \<longrightarrow> length rs' = length rcs
          \<and> sent w' = sent w @ map get_request rcs
          \<and> (\<forall>i < length rcs.
                fst (srv (run_requests srv (server_state w) (map get_request (take i rcs)))
                         (get_request (rcs ! i))) = Inr (rs' ! i))"
  proof (intro impI conjI allI)
    assume "RabjQueue_get pf srv self' rcs w = (Inr rs', w')"
    with eq have g: "get_each srv rcs w = (Inr rs', w')" by simp
    from get_each_sent [OF g] show "length rs' = length rcs" by simp
    from get_each_sent [OF g] show "sent w' = sent w @ map get_request rcs" by simp
    fix i
    assume "i < length rcs"
    from get_each_aligned [OF g this]
    show "fst (srv (run_requests srv (server_state w) (map get_request (take i rcs)))
               (get_request (rcs ! i))) = Inr (rs' ! i)" .
  qed
  have gr: "\<And>rc. get_request rc = \<lparr>target = fst rc, path = snd rc, meth = GET, kwargs = []\<rparr>"
    by (simp add: get_request_def)
  from clamp par eq total [unfolded get_request_eq] fails [unfolded get_request_eq]
    ret [unfolded get_request_eq]
  show ?thesis by (intro conjI)
qed

theorem threads_clamped_get_sequential_witness:
  "RabjQueue_init (const_server (JStr ''a'')) queue_rec JNone JNone JNone 5 world0
     = (Inr \<lparr>queue = queue_rec, threads = 2, status_fetched = False, cached_status = JNone\<rparr>,
        world0)
   \<and> threads \<lparr>queue = queue_rec, threads = 2, status_fetched = False, cached_status = JNone\<rparr>
       = (if (5::int) > 1 then 2 else 1)
   \<and> fst (const_server (JStr ''a'') 0
            \<lparr>target = Container queue_rec, path = [JStr ''questions''], meth = GET, kwargs = []\<rparr>)
       = Inr (JDict [], JStr ''a'')
   \<and> fst (const_server (JStr ''a'') 1
            \<lparr>target = Container queue_rec, path = [JStr ''status''], meth = GET, kwargs = []\<rparr>)
       = Inr (JDict [], JStr ''a'')
   \<and> RabjQueue_get no_parallel_fetch (const_server (JStr ''a''))
        \<lparr>queue = queue_rec, threads = 2, status_fetched = False, cached_status = JNone\<rparr>
        two_callables world0
     = (Inr [(JDict [], JStr ''a''), (JDict [], JStr ''a'')],
        \<lparr>server_state = 2,
          sent = [\<lparr>target = Container queue_rec, path = [JStr ''questions''], meth = GET,
                   kwargs = []\<rparr>,
                  \<lparr>target = Container queue_rec, path = [JStr ''status''], meth = GET,
                   kwargs = []\<rparr>],
          logged = []\<rparr>)
   \<and> fst (paging_server three_records 0
            \<lparr>target = Container queue_rec, path = [JStr ''questions''], meth = GET, kwargs = []\<rparr>)
       = Inl (Remote ''bad request'')
   \<and> RabjQueue_get no_parallel_fetch (paging_server three_records)
        \<lparr>queue = queue_rec, threads = 2, status_fetched = False, cached_status = JNone\<rparr>
        two_callables world0
     = (Inl (Remote ''bad request''),
        \<lparr>server_state = 0,
          sent = [\<lparr>target = Container queue_rec, path = [JStr ''questions''], meth = GET,
                   kwargs = []\<rparr>],
          logged = []\<rparr>)"
proof -
  let ?self = "\<lparr>queue = queue_rec, threads = 2, status_fetched = False, cached_status = JNone\<rparr>"
  let ?rs = "[(JDict [], JStr ''a''), (JDict [], JStr ''a'')]"
  let ?rq = "\<lambda>rc :: callable. \<lparr>target = fst rc, path = snd rc, meth = GET, kwargs = []\<rparr>"
  have a: "RabjQueue_init (const_server (JStr ''a'')) queue_rec JNone JNone JNone 5 world0
             = (Inr ?self, world0)"
    by (simp add: RabjQueue_init_def queue_rec_def)
  have len: "length ?rs = length two_callables" by (simp add: two_callables_def)
  have ans: "\<forall>i < length two_callables.
      fst (const_server (JStr ''a'')
             (run_requests (const_server (JStr ''a'')) (server_state world0)
                (map ?rq (take i two_callables)))
             (?rq (two_callables ! i))) = Inr (?rs ! i)"
    by (auto simp: two_callables_def const_server_def less_Suc_eq numeral_2_eq_2)
  have k: "(0::nat) < length two_callables" by (simp add: two_callables_def)
  have bad: "fst (paging_server three_records
                   (run_requests (paging_server three_records) (server_state world0)
                      (map ?rq (take 0 two_callables)))
                   (?rq (two_callables ! 0))) = Inl (Remote ''bad request'')"
    by (simp add: two_callables_def paging_server_def)
  have ok: "RabjQueue_get no_parallel_fetch (const_server (JStr ''a'')) ?self two_callables world0
     = (Inr ?rs,
        world0\<lparr>server_state :=
                 run_requests (const_server (JStr ''a'')) (server_state world0)
                   (map ?rq two_callables),
               sent := sent world0 @ map ?rq two_callables\<rparr>)"
    using threads_clamped_get_sequential
            [of "const_server (JStr ''a'')" queue_rec JNone JNone JNone 5 world0 ?self world0
                ?self no_parallel_fetch two_callables world0 ?rs,
             THEN conjunct2, THEN conjunct2, THEN conjunct2, THEN conjunct1] len ans
    by blast
  have ko: "RabjQueue_get no_parallel_fetch (paging_server three_records) ?self two_callables
              world0
     = (Inl (Remote ''bad request''),
        world0\<lparr>server_state :=
                 run_requests (paging_server three_records) (server_state world0)
                   (map ?rq (take (Suc 0) two_callables)),
               sent := sent world0 @ map ?rq (take (Suc 0) two_callables)\<rparr>)"
    using threads_clamped_get_sequential
            [of "paging_server three_records" _ _ _ _ _ _ _ _
                ?self no_parallel_fetch two_callables world0 _ 0 "Remote ''bad request''",
             THEN conjunct2, THEN conjunct2, THEN conjunct2, THEN conjunct2, THEN conjunct1]
          k bad
    by blast
  have cl: "threads ?self = (if (5::int) > 1 then 2 else 1)"
    using threads_clamped_get_sequential
            [of "const_server (JStr ''a'')" queue_rec JNone JNone JNone 5 world0 ?self world0,
             THEN conjunct1] a
    by blast
  show ?thesis
    using a cl ok ko
    by (simp add: two_callables_def const_server_def paging_server_def world0_def)
qed


subsection \<open>The status record\<close>

lemma not_rebinds_Nil [simp]: "\<not> rebinds ps []"
  by (simp add: rebinds_def)

lemma status_sent:
  "\<not> rebinds [''self''] kw \<Longrightarrow>
     sent (snd (status srv self kw w)) = sent w @ [status_request self kw]"
  by (auto simp: status_def call_def Let_def split: prod.splits sum.splits json.splits)

lemma status_ignores_cache:
  "status srv (self\<lparr>status_fetched := b, cached_status := c\<rparr>) kw w = status srv self kw w"
  by (simp add: status_def status_request_def)

lemma status_value:
  assumes "\<not> rebinds [''self''] kw"
    and "srv (server_state w) (status_request self kw) = (Inr (resp, result), s')"
    and "getitem result ''status'' = Inr (JDict qstat)"
    and "py_add (dict_get qstat ''complete'' (JInt 0)) (dict_get qstat ''wanting'' (JInt 0))
           = Inr tot"
  shows "status srv self kw w =
           (Inr (JDict [(''judgments'', dict_get qstat ''judgments'' (JInt 0)),
                        (''complete'', dict_get qstat ''complete'' (JInt 0)),
                        (''incomplete'', dict_get qstat ''wanting'' (JInt 0)),
                        (''started'', dict_get qstat ''started'' (JInt 0)),
                        (''questions'', tot)]),
            w\<lparr>server_state := s', sent := sent w @ [status_request self kw]\<rparr>)"
  using assms by (simp add: status_def call_def Let_def)

text \<open>
  C3, for keyword arguments that can be bound (none of them is named \<open>self\<close>). The call
  issues one request, the GET on \<open>status\<close> under the queue with the caller's keyword
  arguments, whatever the cache fields hold, and the cache fields have no influence on the
  call. When the server answers with a body whose \<open>status\<close> entry is a dictionary, the
  record returned takes \<open>judgments\<close>, \<open>complete\<close> and \<open>started\<close> from the entries of
  these names and \<open>incomplete\<close> from the entry \<open>wanting\<close>, each 0 when the entry is
  missing, and \<open>questions\<close> is \<open>complete + incomplete\<close> where this sum is defined; for
  integer counts it is their integer sum.
\<close>

theorem status_fresh_and_simplified:
  "(\<not> rebinds [''self''] kw
      \<longrightarrow> sent (snd (status srv self kw w))
            = sent w @ [\<lparr>target = Container (queue self), path = [JStr ''status''],
                         meth = GET, kwargs = kw\<rparr>])
   \<and> status srv (self\<lparr>status_fetched := b, cached_status := cs\<rparr>) kw w = status srv self kw w
   \<and> (\<not> rebinds [''self''] kw
        \<and> srv (server_state w)
              \<lparr>target = Container (queue self), path = [JStr ''status''], meth = GET,
               kwargs = kw\<rparr> = (Inr (resp, result), s')
        \<and> getitem result ''status'' = Inr (JDict qstat)
        \<and> py_add (case map_of qstat ''complete'' of None \<Rightarrow> JInt 0 | Some v \<Rightarrow> v)
                  (case map_of qstat ''wanting'' of None \<Rightarrow> JInt 0 | Some v \<Rightarrow> v) = Inr tot
      \<longrightarrow> status srv self kw w =
            (Inr (JDict [(''judgments'',
                            (case map_of qstat ''judgments'' of None \<Rightarrow> JInt 0 | Some v \<Rightarrow> v)),
                         (''complete'',
                            (case map_of qstat ''complete'' of None \<Rightarrow> JInt 0 | Some v \<Rightarrow> v)),
                         (''incomplete'',
                            (case map_of qstat ''wanting'' of None \<Rightarrow> JInt 0 | Some v \<Rightarrow> v)),
                         (''started'',
                            (case map_of qstat ''started'' of None \<Rightarrow> JInt 0 | Some v \<Rightarrow> v)),
                         (''questions'', tot)]),
             w\<lparr>server_state := s',
               sent := sent w @ [\<lparr>target = Container (queue self), path = [JStr ''status''],
                                   meth = GET, kwargs = kw\<rparr>]\<rparr>))
   \<and> py_add (JInt c) (JInt i) = Inr (JInt (c + i))"
proof (intro conjI impI)
  assume "\<not> rebinds [''self''] kw"
  then show "sent (snd (status srv self kw w))
            = sent w @ [\<lparr>target = Container (queue self), path = [JStr ''status''],
                         meth = GET, kwargs = kw\<rparr>]"
    using status_sent [of kw srv self w] by (simp add: status_request_def)
next
  show "status srv (self\<lparr>status_fetched := b, cached_status := cs\<rparr>) kw w = status srv self kw w"
    by (rule status_ignores_cache)
next
  assume h: "\<not> rebinds [''self''] kw
        \<and> srv (server_state w)
              \<lparr>target = Container (queue self), path = [JStr ''status''], meth = GET,
               kwargs = kw\<rparr> = (Inr (resp, result), s')
        \<and> getitem result ''status'' = Inr (JDict qstat)
        \<and> py_add (case map_of qstat ''complete'' of None \<Rightarrow> JInt 0 | Some v \<Rightarrow> v)
                  (case map_of qstat ''wanting'' of None \<Rightarrow> JInt 0 | Some v \<Rightarrow> v) = Inr tot"
  then have "srv (server_state w) (status_request self kw) = (Inr (resp, result), s')"
    and "py_add (dict_get qstat ''complete'' (JInt 0)) (dict_get qstat ''wanting'' (JInt 0))
           = Inr tot"
    by (simp_all add: dict_get_def status_request_def)
  with h status_value [of kw srv w self resp result s' qstat tot]
  show "status srv self kw w =
            (Inr (JDict [(''judgments'',
                            (case map_of qstat ''judgments'' of None \<Rightarrow> JInt 0 | Some v \<Rightarrow> v)),
                         (''complete'',
                            (case map_of qstat ''complete'' of None \<Rightarrow> JInt 0 | Some v \<Rightarrow> v)),
                         (''incomplete'',
                            (case map_of qstat ''wanting'' of None \<Rightarrow> JInt 0 | Some v \<Rightarrow> v)),
                         (''started'',
                            (case map_of qstat ''started'' of None \<Rightarrow> JInt 0 | Some v \<Rightarrow> v)),
                         (''questions'', tot)]),
             w\<lparr>server_state := s',
               sent := sent w @ [\<lparr>target = Container (queue self), path = [JStr ''status''],
                                   meth = GET, kwargs = kw\<rparr>]\<rparr>)"
    by (simp add: dict_get_def status_request_def)
next
  show "py_add (JInt c) (JInt i) = Inr (JInt (c + i))"
    by (simp add: py_add_def)
qed

theorem status_fresh_and_simplified_witness:
  "\<not> rebinds [''self''] [(''since'', JStr ''2010-01-01'')]
   \<and> const_server status_body (server_state world0)
        \<lparr>target = Container queue_rec, path = [JStr ''status''], meth = GET,
         kwargs = [(''since'', JStr ''2010-01-01'')]\<rparr>
     = (Inr (JDict [], status_body), 1)
   \<and> getitem status_body ''status''
     = Inr (JDict [(''judgments'', JInt 7), (''complete'', JInt 3), (''wanting'', JInt 2)])
   \<and> py_add (JInt 3) (JInt 2) = Inr (JInt 5)
   \<and> status (const_server status_body) queue1 [(''since'', JStr ''2010-01-01'')] world0
     = (Inr simple_status1,
        \<lparr>server_state = 1,
          sent = [\<lparr>target = Container queue_rec, path = [JStr ''status''], meth = GET,
                   kwargs = [(''since'', JStr ''2010-01-01'')]\<rparr>],
          logged = []\<rparr>)"
proof -
  let ?qstat = "[(''judgments'', JInt 7), (''complete'', JInt 3), (''wanting'', JInt 2)]"
  let ?kw = "[(''since'', JStr ''2010-01-01'')]"
  have r: "\<not> rebinds [''self''] ?kw" by (simp add: rebinds_def)
  have a: "const_server status_body (server_state world0)
             \<lparr>target = Container (queue queue1), path = [JStr ''status''], meth = GET,
              kwargs = ?kw\<rparr>
             = (Inr (JDict [], status_body), 1)"
    by (simp add: const_server_def world0_def)
  have b: "getitem status_body ''status'' = Inr (JDict ?qstat)"
    by (simp add: status_body_def)
  have c: "py_add (JInt 3) (JInt 2) = Inr (JInt 5)"
    using status_fresh_and_simplified [of ?kw, THEN conjunct2, THEN conjunct2, THEN conjunct2,
                                       of 3 2]
    by simp
  have d: "status (const_server status_body) queue1 ?kw world0 =
            (Inr (JDict [(''judgments'', JInt 7), (''complete'', JInt 3), (''incomplete'', JInt 2),
                         (''started'', JInt 0), (''questions'', JInt 5)]),
             world0\<lparr>server_state := 1,
               sent := sent world0 @ [\<lparr>target = Container (queue queue1),
                                       path = [JStr ''status''], meth = GET, kwargs = ?kw\<rparr>]\<rparr>)"
    using status_fresh_and_simplified
            [of ?kw "const_server status_body" queue1 world0 _ _ "JDict []" status_body 1
                ?qstat "JInt 5", THEN conjunct2, THEN conjunct2, THEN conjunct1] r a b c
    by simp
  show ?thesis
    using r a b c d by (simp add: simple_status1_def world0_def queue1_def)
qed

text \<open>
  The claim as written fails for a call whose keyword arguments name \<open>self\<close>, which
  raises before any request is issued, and for a status dictionary with a count that is
  null, where the addition raises after the fetch and no record is returned.
\<close>

theorem status_unbound_or_null_count_counterexample:
  "status (const_server status_body) queue1 [(''self'', JInt 1)] world0
     = (Inl TypeError, world0)
   \<and> status (const_server null_status_body) queue1 [] world0
     = (Inl TypeError,
        \<lparr>server_state = 1,
          sent = [\<lparr>target = Container queue_rec, path = [JStr ''status''], meth = GET,
                   kwargs = []\<rparr>],
          logged = []\<rparr>)"
  by (simp add: status_def rebinds_def call_def const_server_def null_status_body_def
        status_request_def world0_def queue1_def dict_get_def py_add_def)

subsection \<open>The status cache\<close>

lemma status_field_fetched:
  "status_fetched self \<Longrightarrow>
     status_field name srv self w = (getitem (cached_status self) name, self, w)"
  by (simp add: status_field_def statusonce_def)

lemma access_status_field: "access p = status_field (field_name p)"
  by (cases p)
     (simp_all add: questions_def complete_def incomplete_def started_def judgments_def)

lemma access_seq_fetched:
  "status_fetched self \<Longrightarrow>
     access_seq srv ps self w
       = (map (\<lambda>p. getitem (cached_status self) (field_name p)) ps, self, w)"
  by (induction ps) (simp_all add: access_status_field status_field_fetched)

lemma statusonce_caches:
  "statusonce srv self w = (Inr st, self1, w1) \<Longrightarrow>
     status_fetched self1 \<and> cached_status self1 = st"
  by (auto simp: statusonce_def split: if_splits prod.splits sum.splits)

lemma status_field_unfetched:
  "\<not> status_fetched self \<Longrightarrow>
     status_field name srv self w =
       (case status srv self [] w of
          (Inl e, w') \<Rightarrow> (Inl e, self, w')
        | (Inr st, w') \<Rightarrow>
            (getitem st name, self\<lparr>cached_status := st, status_fetched := True\<rparr>, w'))"
  by (auto simp: status_field_def statusonce_def split: prod.splits sum.splits)

text \<open>
  C4. Once \<^verbatim>\<open>statusonce\<close> has returned a snapshot, any sequence of property reads
  returns the fields of that snapshot and leaves the object and the world as they were: no
  request is issued and the cache is not written. After \<^verbatim>\<open>resetstatus\<close> the flag is
  off and the next property read issues the status GET, and its value comes from the
  answer to that request, not from what the cache held.
\<close>

theorem status_cached_until_reset:
  "(statusonce srv self w = (Inr st, self1, w1)
      \<longrightarrow> access_seq srv ps self1 w1
            = (map (\<lambda>p. getitem st (field_name p)) ps, self1, w1))
   \<and> \<not> status_fetched (resetstatus self1)
   \<and> sent (snd (snd (access p srv (resetstatus self1) w1)))
       = sent w1 @ [status_request self1 []]
   \<and> fst (access p srv (resetstatus self1) w1)
       = (case status srv self1 [] w1 of
            (Inl e, w') \<Rightarrow> Inl e
          | (Inr st', w') \<Rightarrow> getitem st' (field_name p))"
proof (intro conjI impI)
  assume "statusonce srv self w = (Inr st, self1, w1)"
  from statusonce_caches [OF this] access_seq_fetched [of self1 srv ps w1]
  show "access_seq srv ps self1 w1 = (map (\<lambda>p. getitem st (field_name p)) ps, self1, w1)"
    by simp
next
  show nf: "\<not> status_fetched (resetstatus self1)"
    by (simp add: resetstatus_def)
  have st: "status srv (resetstatus self1) [] w1 = status srv self1 [] w1"
    unfolding resetstatus_def by (rule status_ignores_cache)
  have uf: "access p srv (resetstatus self1) w1 =
       (case status srv self1 [] w1 of
          (Inl e, w') \<Rightarrow> (Inl e, resetstatus self1, w')
        | (Inr st, w') \<Rightarrow>
            (getitem st (field_name p),
             (resetstatus self1)\<lparr>cached_status := st, status_fetched := True\<rparr>, w'))"
    using status_field_unfetched [OF nf, of "field_name p" srv w1] st
    by (simp add: access_status_field)
  have "snd (snd (access p srv (resetstatus self1) w1)) = snd (status srv self1 [] w1)"
    by (simp add: uf split: prod.splits sum.splits)
  then show "sent (snd (snd (access p srv (resetstatus self1) w1)))
       = sent w1 @ [status_request self1 []]"
    by (simp add: status_sent [of "[]"])
  show "fst (access p srv (resetstatus self1) w1)
       = (case status srv self1 [] w1 of
            (Inl e, w') \<Rightarrow> Inl e
          | (Inr st', w') \<Rightarrow> getitem st' (field_name p))"
    by (simp add: uf split: prod.splits sum.splits)
qed


theorem status_cached_until_reset_witness:
  "statusonce (const_server status_body) queue1 world0
     = (Inr simple_status1, queue1_cached, world1)
   \<and> access_seq (const_server status_body) [Questions, Incomplete, Questions] queue1_cached world1
     = ([Inr (JInt 5), Inr (JInt 2), Inr (JInt 5)], queue1_cached, world1)
   \<and> \<not> status_fetched (resetstatus queue1_cached)
   \<and> sent (snd (snd (access Complete (const_server status_body) (resetstatus queue1_cached)
                       world1)))
     = [status_request queue1 [], status_request queue1 []]
   \<and> fst (access Complete (const_server status_body) (resetstatus queue1_cached) world1)
     = Inr (JInt 3)"
proof -
  have st: "status (const_server status_body) queue1 [] world0 = (Inr simple_status1, world1)"
    by (simp add: status_def call_def const_server_def status_body_def world0_def world1_def
          simple_status1_def dict_get_def py_add_def)
  have a: "statusonce (const_server status_body) queue1 world0
             = (Inr simple_status1, queue1_cached, world1)"
    by (simp add: statusonce_def st) (simp add: queue1_def queue1_cached_def)
  have rq: "status_request queue1_cached [] = status_request queue1 []"
    by (simp add: status_request_def queue1_def queue1_cached_def)
  have st2: "fst (status (const_server status_body) queue1_cached [] world1) = Inr simple_status1"
    by (simp add: status_def call_def const_server_def status_body_def world1_def
          simple_status1_def dict_get_def py_add_def)
  show ?thesis
    using status_cached_until_reset
            [of "const_server status_body" queue1 world0 simple_status1 queue1_cached world1
                "[Questions, Incomplete, Questions]" Complete] a rq st2
    by (simp add: simple_status1_def world1_def split: prod.splits)
qed


subsection \<open>Creating a queue\<close>

lemma map_of_dict_set:
  "map_of (dict_set d k v) k' = (if k' = k then Some v else map_of d k')"
  by (induction d) auto

lemma map_of_dict_update:
  "k \<notin> fst ` set m \<Longrightarrow> map_of (dict_update d m) k = map_of d k"
  by (induction m arbitrary: d) (auto simp: map_of_dict_set)

lemma rebinds_iff: "rebinds ps m \<longleftrightarrow> (\<exists>k \<in> fst ` set m. k \<in> set ps)"
  by (auto simp: rebinds_def list_ex_iff)

lemma RabjQueue_init_sent:
  "\<exists>rest. sent (snd (RabjQueue_init srv q surl qid key thr w)) = sent w @ rest"
  by (auto simp: RabjQueue_init_def call_def split: prod.splits sum.splits)

lemma RabjQueue_init_record:
  "truthy q \<Longrightarrow>
     RabjQueue_init srv q JNone JNone JNone thr w
       = (Inr \<lparr>queue = q, threads = (if thr > 1 then 2 else 1), status_fetched = False,
               cached_status = JNone\<rparr>, w)"
  by (cases q) (simp_all add: RabjQueue_init_def)

lemma create_queue_record_votes:
  "\<not> rebinds [''self'', ''name'', ''owner'', ''votes'', ''access_key'', ''tags''] meta \<Longrightarrow>
     map_of (create_queue_record name owner n access_key tags meta) ''votes'' = Some (JInt n)"
proof -
  assume "\<not> rebinds [''self'', ''name'', ''owner'', ''votes'', ''access_key'', ''tags''] meta"
  then have "''votes'' \<notin> fst ` set meta"
    by (auto simp: rebinds_iff)
  then show ?thesis
    by (simp add: create_queue_record_def map_of_dict_update)
qed

lemma create_queue_ok:
  assumes "py_int votes = Inr n"
    and "\<not> rebinds [''self'', ''name'', ''owner'', ''votes'', ''access_key'', ''tags''] meta"
  shows "create_queue srv self name owner votes access_key tags meta w =
     (let w1 = (if access_key = JNone
                then w\<lparr>logged := logged w @
                       [''You are creating a new queue without providing an access key'']\<rparr>
                else w);
          q = create_queue_record name owner n access_key
                (if tags = JNone then JList [] else tags) meta
      in (case call srv (queues_post self q) w1 of
            (Inl e, w2) \<Rightarrow> (Inl e, w2)
          | (Inr (resp, result), w2) \<Rightarrow>
              RabjQueue_init srv result JNone JNone JNone (server_threads self) w2))"
  using assms by (simp add: create_queue_def)

lemma create_queue_record_eq:
  "create_queue_record name owner n access_key tags meta =
     dict_update [(''name'', name), (''owner'', owner), (''access_key'', access_key),
                  (''votes'', JInt n), (''tags'', tags)] meta"
  by (simp add: create_queue_record_def)

lemma queues_post_eq:
  "queues_post self q =
     \<lparr>target = fst (store self), path = snd (store self) @ [JStr ''queues''], meth = POST,
      kwargs = [(''queue'', JDict q)]\<rparr>"
  by (simp add: queues_post_def)

lemma create_queue_answered:
  assumes "py_int votes = Inr n"
    and "\<not> rebinds [''self'', ''name'', ''owner'', ''votes'', ''access_key'', ''tags''] meta"
    and "q = create_queue_record name owner n access_key
               (if tags = JNone then JList [] else tags) meta"
    and "srv (server_state w) (queues_post self q) = (r, s')"
  shows "create_queue srv self name owner votes access_key tags meta w =
     (let w2 = w\<lparr>logged := logged w @
                   (if access_key = JNone
                    then [''You are creating a new queue without providing an access key'']
                    else []),
                 server_state := s', sent := sent w @ [queues_post self q]\<rparr>
      in (case r of
            Inl e \<Rightarrow> (Inl e, w2)
          | Inr (resp, result) \<Rightarrow>
              RabjQueue_init srv result JNone JNone JNone (server_threads self) w2))"
  using assms by (cases r) (auto simp: create_queue_ok call_def Let_def)

text \<open>
  C6. When \<^verbatim>\<open>int(votes)\<close> raises, \<^verbatim>\<open>create_queue\<close> raises (the error of
  \<^verbatim>\<open>int\<close>, or the \<open>TypeError\<close> of a keyword argument that cannot be bound) and the
  world is as it was: no request was issued. When it gives \<open>n\<close> and the keyword
  arguments can be bound, the next request issued is the POST to \<open>queues\<close> under the
  store of the record with the entries \<open>name\<close>, \<open>owner\<close>, \<open>access_key\<close>,
  \<open>votes\<close> and \<open>tags\<close> updated by the extra keyword arguments, whose \<open>votes\<close> entry
  is the integer \<open>n\<close>. When the request fails, the call raises that error. When the
  server answers with a non-empty body, no other request is issued and the call returns a
  \<^verbatim>\<open>RabjQueue\<close> holding that body.
\<close>

theorem create_queue_votes_checked_first:
  "(py_int votes = Inl e
      \<longrightarrow> create_queue srv self name owner votes access_key tags meta w
            = (Inl (if rebinds [''self'', ''name'', ''owner'', ''votes'', ''access_key'', ''tags'']
                         meta
                    then TypeError else e), w))
   \<and> (py_int votes = Inr n
       \<and> \<not> rebinds [''self'', ''name'', ''owner'', ''votes'', ''access_key'', ''tags''] meta
       \<and> q = dict_update [(''name'', name), (''owner'', owner), (''access_key'', access_key),
                           (''votes'', JInt n),
                           (''tags'', if tags = JNone then JList [] else tags)] meta
       \<and> rq = \<lparr>target = fst (store self), path = snd (store self) @ [JStr ''queues''],
                 meth = POST, kwargs = [(''queue'', JDict q)]\<rparr>
       \<and> w2 = w\<lparr>logged := logged w @
                     (if access_key = JNone
                      then [''You are creating a new queue without providing an access key'']
                      else []),
                   server_state := s', sent := sent w @ [rq]\<rparr>
      \<longrightarrow> map_of q ''votes'' = Some (JInt n)
          \<and> (\<exists>rest. sent (snd (create_queue srv self name owner votes access_key tags meta w))
                       = sent w @ rq # rest)
          \<and> (srv (server_state w) rq = (Inl err, s')
              \<longrightarrow> create_queue srv self name owner votes access_key tags meta w = (Inl err, w2))
          \<and> (srv (server_state w) rq = (Inr (resp, result), s') \<and> truthy result
              \<longrightarrow> create_queue srv self name owner votes access_key tags meta w
                    = (Inr \<lparr>queue = result,
                            threads = (if server_threads self > 1 then 2 else 1),
                            status_fetched = False, cached_status = JNone\<rparr>, w2)))"
proof (intro conjI impI)
  assume "py_int votes = Inl e"
  then show "create_queue srv self name owner votes access_key tags meta w
            = (Inl (if rebinds [''self'', ''name'', ''owner'', ''votes'', ''access_key'', ''tags'']
                         meta
                    then TypeError else e), w)"
    by (simp add: create_queue_def)
next
  assume h: "py_int votes = Inr n
       \<and> \<not> rebinds [''self'', ''name'', ''owner'', ''votes'', ''access_key'', ''tags''] meta
       \<and> q = dict_update [(''name'', name), (''owner'', owner), (''access_key'', access_key),
                           (''votes'', JInt n),
                           (''tags'', if tags = JNone then JList [] else tags)] meta
       \<and> rq = \<lparr>target = fst (store self), path = snd (store self) @ [JStr ''queues''],
                 meth = POST, kwargs = [(''queue'', JDict q)]\<rparr>
       \<and> w2 = w\<lparr>logged := logged w @
                     (if access_key = JNone
                      then [''You are creating a new queue without providing an access key'']
                      else []),
                   server_state := s', sent := sent w @ [rq]\<rparr>"
  then have pv: "py_int votes = Inr n"
    and nr: "\<not> rebinds [''self'', ''name'', ''owner'', ''votes'', ''access_key'', ''tags''] meta"
    and q: "q = create_queue_record name owner n access_key
                  (if tags = JNone then JList [] else tags) meta"
    and rq: "rq = queues_post self q"
    and w2: "w2 = w\<lparr>logged := logged w @
                     (if access_key = JNone
                      then [''You are creating a new queue without providing an access key'']
                      else []),
                   server_state := s', sent := sent w @ [queues_post self q]\<rparr>"
    by (simp_all add: create_queue_record_eq queues_post_eq)
  show "map_of q ''votes'' = Some (JInt n)"
    using nr q by (simp add: create_queue_record_votes)
  let ?w1 = "(if access_key = JNone
                then w\<lparr>logged := logged w @
                       [''You are creating a new queue without providing an access key'']\<rparr>
                else w)"
  have cq: "create_queue srv self name owner votes access_key tags meta w =
      (case call srv (queues_post self q) ?w1 of
            (Inl e, w2) \<Rightarrow> (Inl e, w2)
          | (Inr (resp, result), w2) \<Rightarrow>
              RabjQueue_init srv result JNone JNone JNone (server_threads self) w2)"
    using pv nr q create_queue_ok [of votes n meta srv self name owner access_key tags w]
    by (simp add: Let_def)
  have w1: "sent ?w1 = sent w" "server_state ?w1 = server_state w" by simp_all
  show "\<exists>rest. sent (snd (create_queue srv self name owner votes access_key tags meta w))
                       = sent w @ rq # rest"
  proof (cases "call srv (queues_post self q) ?w1")
    case (Pair r w3)
    then have s2: "sent w3 = sent w @ [queues_post self q]"
      using w1 by (auto simp: call_def split: prod.splits)
    show ?thesis
    proof (cases r)
      case (Inl e)
      with Pair cq s2 rq show ?thesis by simp
    next
      case (Inr b)
      obtain resp1 result1 where b: "b = (resp1, result1)" by (cases b)
      obtain rest where
        "sent (snd (RabjQueue_init srv result1 JNone JNone JNone (server_threads self) w3))
           = sent w3 @ rest"
        using RabjQueue_init_sent by blast
      with Pair Inr b cq s2 rq show ?thesis by simp
    qed
  qed
  {
    assume "srv (server_state w) rq = (Inl err, s')"
    then have "srv (server_state w) (queues_post self q) = (Inl err, s')" by (simp add: rq)
    from create_queue_answered
           [where srv = srv and w = w and self = self and r = "Inl err" and s' = s',
            OF pv nr q this] w2
    show "create_queue srv self name owner votes access_key tags meta w = (Inl err, w2)"
      by (simp add: Let_def)
  }
  {
    assume a: "srv (server_state w) rq = (Inr (resp, result), s') \<and> truthy result"
    then have "srv (server_state w) (queues_post self q) = (Inr (resp, result), s')"
      by (simp add: rq)
    from create_queue_answered
           [where srv = srv and w = w and self = self and r = "Inr (resp, result)"
              and s' = s', OF pv nr q this] w2 a
    show "create_queue srv self name owner votes access_key tags meta w
                    = (Inr \<lparr>queue = result,
                            threads = (if server_threads self > 1 then 2 else 1),
                            status_fetched = False, cached_status = JNone\<rparr>, w2)"
      by (simp add: Let_def RabjQueue_init_record)
  }
qed

theorem create_queue_votes_checked_first_witness:
  "py_int (JStr ''one'') = Inl ValueError
   \<and> create_queue (const_server queue_rec) server1 (JStr ''doc queue'') (JStr ''/user/x'')
        (JStr ''one'') (JStr ''k'') JNone [] world0 = (Inl ValueError, world0)
   \<and> py_int (JStr '' 1 '') = Inr 1
   \<and> \<not> rebinds [''self'', ''name'', ''owner'', ''votes'', ''access_key'', ''tags''] []
   \<and> const_server queue_rec (server_state world0)
        \<lparr>target = RabjCallable (JStr ''http://h/'') JNone,
         path = [JStr ''rabj/store/'', JStr ''queues''], meth = POST,
         kwargs = [(''queue'', JDict [(''name'', JStr ''doc queue''), (''owner'', JStr ''/user/x''),
                                      (''access_key'', JStr ''k''), (''votes'', JInt 1),
                                      (''tags'', JList [])])]\<rparr>
     = (Inr (JDict [], queue_rec), 1)
   \<and> truthy queue_rec
   \<and> create_queue (const_server queue_rec) server1 (JStr ''doc queue'') (JStr ''/user/x'')
        (JStr '' 1 '') (JStr ''k'') JNone [] world0
     = (Inr \<lparr>queue = queue_rec, threads = 1, status_fetched = False, cached_status = JNone\<rparr>,
        \<lparr>server_state = 1,
          sent = [\<lparr>target = RabjCallable (JStr ''http://h/'') JNone,
                   path = [JStr ''rabj/store/'', JStr ''queues''], meth = POST,
                   kwargs = [(''queue'',
                              JDict [(''name'', JStr ''doc queue''), (''owner'', JStr ''/user/x''),
                                     (''access_key'', JStr ''k''), (''votes'', JInt 1),
                                     (''tags'', JList [])])]\<rparr>],
          logged = []\<rparr>)
   \<and> paging_server [] (server_state world0)
        \<lparr>target = RabjCallable (JStr ''http://h/'') JNone,
         path = [JStr ''rabj/store/'', JStr ''queues''], meth = POST,
         kwargs = [(''queue'', JDict [(''name'', JStr ''doc queue''), (''owner'', JStr ''/user/x''),
                                      (''access_key'', JStr ''k''), (''votes'', JInt 1),
                                      (''tags'', JList [])])]\<rparr>
     = (Inl (Remote ''bad request''), 0)
   \<and> create_queue (paging_server []) server1 (JStr ''doc queue'') (JStr ''/user/x'')
        (JStr '' 1 '') (JStr ''k'') JNone [] world0
     = (Inl (Remote ''bad request''),
        \<lparr>server_state = 0,
          sent = [\<lparr>target = RabjCallable (JStr ''http://h/'') JNone,
                   path = [JStr ''rabj/store/'', JStr ''queues''], meth = POST,
                   kwargs = [(''queue'',
                              JDict [(''name'', JStr ''doc queue''), (''owner'', JStr ''/user/x''),
                                     (''access_key'', JStr ''k''), (''votes'', JInt 1),
                                     (''tags'', JList [])])]\<rparr>],
          logged = []\<rparr>)"
proof -
  let ?q = "[(''name'', JStr ''doc queue''), (''owner'', JStr ''/user/x''),
             (''access_key'', JStr ''k''), (''votes'', JInt 1), (''tags'', JList [])]"
  let ?rq = "\<lparr>target = RabjCallable (JStr ''http://h/'') JNone,
              path = [JStr ''rabj/store/'', JStr ''queues''], meth = POST,
              kwargs = [(''queue'', JDict ?q)]\<rparr>"
  have sp: "is_space CHR '' ''" "\<not> is_space CHR ''1''" "\<not> is_space CHR ''o''"
    "\<not> is_space CHR ''e''"
    by (simp_all add: is_space_def)
  have a: "py_int (JStr ''one'') = Inl ValueError"
    by (simp add: int_of_str_def strip_def sp digit_val_def)
  have b: "py_int (JStr '' 1 '') = Inr 1"
    by (simp add: int_of_str_def strip_def sp digit_val_def)
  have c: "\<not> rebinds [''self'', ''name'', ''owner'', ''votes'', ''access_key'', ''tags''] []"
    by (simp add: rebinds_def)
  have st: "store server1 = (RabjCallable (JStr ''http://h/'') JNone, [JStr ''rabj/store/''])"
    "server_threads server1 = 1"
    by (simp_all add: server1_def RabjServer_init_def Let_def endswith_def slice_to_neg_def
          suffix_to_prefix)
  have d: "const_server queue_rec (server_state world0) ?rq = (Inr (JDict [], queue_rec), 1)"
    by (simp add: const_server_def world0_def)
  have d': "paging_server [] (server_state world0) ?rq = (Inl (Remote ''bad request''), 0)"
    by (simp add: paging_server_def world0_def)
  have t: "truthy queue_rec" by (simp add: queue_rec_def)
  have e: "create_queue (const_server queue_rec) server1 (JStr ''doc queue'') (JStr ''/user/x'')
        (JStr ''one'') (JStr ''k'') JNone [] world0 = (Inl ValueError, world0)"
    using create_queue_votes_checked_first
            [of "JStr ''one''" ValueError "const_server queue_rec" server1 "JStr ''doc queue''"
                "JStr ''/user/x''" "JStr ''k''" JNone "[]" world0, THEN conjunct1] a c
    by simp
  have hyp: "\<And>s'. py_int (JStr '' 1 '') = Inr 1
       \<and> \<not> rebinds [''self'', ''name'', ''owner'', ''votes'', ''access_key'', ''tags''] []
       \<and> ?q = dict_update [(''name'', JStr ''doc queue''), (''owner'', JStr ''/user/x''),
                           (''access_key'', JStr ''k''), (''votes'', JInt 1),
                           (''tags'', if (JNone::json) = JNone then JList [] else JNone)] []
       \<and> ?rq = \<lparr>target = fst (store server1), path = snd (store server1) @ [JStr ''queues''],
                 meth = POST, kwargs = [(''queue'', JDict ?q)]\<rparr>
       \<and> \<lparr>server_state = s', sent = [?rq], logged = []\<rparr>
           = world0\<lparr>logged := logged world0 @
                     (if JStr ''k'' = JNone
                      then [''You are creating a new queue without providing an access key'']
                      else []),
                   server_state := s', sent := sent world0 @ [?rq]\<rparr>"
    using b c by (simp add: st world0_def)
  have ok: "create_queue (const_server queue_rec) server1 (JStr ''doc queue'') (JStr ''/user/x'')
        (JStr '' 1 '') (JStr ''k'') JNone [] world0
     = (Inr \<lparr>queue = queue_rec, threads = (if server_threads server1 > 1 then 2 else 1),
              status_fetched = False, cached_status = JNone\<rparr>,
        \<lparr>server_state = 1, sent = [?rq], logged = []\<rparr>)"
    by (rule create_queue_votes_checked_first
            [where srv = "const_server queue_rec" and w = world0 and s' = 1
               and resp = "JDict []" and result = queue_rec,
             THEN conjunct2, THEN mp, OF hyp [of 1], THEN conjunct2, THEN conjunct2,
             THEN conjunct2, THEN mp, OF conjI [OF d t]])
  have ko: "create_queue (paging_server []) server1 (JStr ''doc queue'') (JStr ''/user/x'')
        (JStr '' 1 '') (JStr ''k'') JNone [] world0
     = (Inl (Remote ''bad request''), \<lparr>server_state = 0, sent = [?rq], logged = []\<rparr>)"
    by (rule create_queue_votes_checked_first
            [where srv = "paging_server []" and w = world0 and s' = 0
               and err = "Remote ''bad request''",
             THEN conjunct2, THEN mp, OF hyp [of 0], THEN conjunct2, THEN conjunct2,
             THEN conjunct1, THEN mp, OF d'])
  show ?thesis
    using a b c d d' t e ok ko by (simp add: st)
qed

text \<open>
  The claim as written fails when the server's answer to the POST is not a non-empty
  record: a null body makes the \<^verbatim>\<open>RabjQueue\<close> constructor raise after the POST, and an
  empty body makes it issue a second request, a GET on \<^verbatim>\<open>RabjCallable(None)[None]\<close>.
  It also fails for a call with a keyword argument that names a parameter: \<open>votes\<close>
  coerces, and nothing is posted.
\<close>

theorem create_queue_unwrapped_counterexample:
  "create_queue (const_server JNone) server1 (JStr ''doc queue'') (JStr ''/user/x'')
        (JInt 1) (JStr ''k'') JNone [] world0
     = (Inl AssertionError,
        \<lparr>server_state = 1,
          sent = [\<lparr>target = RabjCallable (JStr ''http://h/'') JNone,
                   path = [JStr ''rabj/store/'', JStr ''queues''], meth = POST,
                   kwargs = [(''queue'',
                              JDict [(''name'', JStr ''doc queue''), (''owner'', JStr ''/user/x''),
                                     (''access_key'', JStr ''k''), (''votes'', JInt 1),
                                     (''tags'', JList [])])]\<rparr>],
          logged = []\<rparr>)
   \<and> sent (snd (create_queue (const_server (JDict [])) server1 (JStr ''doc queue'')
                   (JStr ''/user/x'') (JInt 1) (JStr ''k'') JNone [] world0))
     = [\<lparr>target = RabjCallable (JStr ''http://h/'') JNone,
          path = [JStr ''rabj/store/'', JStr ''queues''], meth = POST,
          kwargs = [(''queue'',
                     JDict [(''name'', JStr ''doc queue''), (''owner'', JStr ''/user/x''),
                            (''access_key'', JStr ''k''), (''votes'', JInt 1),
                            (''tags'', JList [])])]\<rparr>,
        \<lparr>target = RabjCallable JNone JNone, path = [JNone], meth = GET, kwargs = []\<rparr>]
   \<and> create_queue (const_server queue_rec) server1 (JStr ''doc queue'') (JStr ''/user/x'')
        (JInt 1) (JStr ''k'') JNone [(''votes'', JInt 2)] world0
     = (Inl TypeError, world0)"
  by (simp add: create_queue_def rebinds_def create_queue_record_def queues_post_def call_def
        const_server_def server1_def RabjServer_init_def Let_def endswith_def slice_to_neg_def
        suffix_to_prefix RabjQueue_init_def get_request_def world0_def)


subsection \<open>Adding questions in batches\<close>

lemma chunks_Nil [simp]: "chunks n [] = []"
  by (simp add: chunks.simps)

lemma chunks_step: "0 < n \<Longrightarrow> xs \<noteq> [] \<Longrightarrow> chunks n xs = take n xs # chunks n (drop n xs)"
  by (subst chunks.simps) simp

lemma concat_chunks: "0 < n \<Longrightarrow> concat (chunks n xs) = xs"
proof (induction n xs rule: chunks.induct)
  case (1 n xs)
  show ?case
  proof (cases "xs = []")
    case True
    then show ?thesis by simp
  next
    case False
    with 1 show ?thesis by (simp add: chunks_step)
  qed
qed

lemma chunks_bounds: "b \<in> set (chunks n xs) \<Longrightarrow> b \<noteq> [] \<and> length b \<le> n"
proof (induction n xs rule: chunks.induct)
  case (1 n xs)
  show ?case
  proof (cases "n = 0 \<or> xs = []")
    case True
    with "1.prems" show ?thesis by (simp add: chunks.simps)
  next
    case False
    with "1.prems" have "b = take n xs \<or> b \<in> set (chunks n (drop n xs))"
      by (simp add: chunks_step)
    with False "1.IH" show ?thesis by auto
  qed
qed


lemma length_chunks: "0 < n \<Longrightarrow> length (chunks n xs) = (length xs + n - 1) div n"
proof (induction n xs rule: chunks.induct)
  case (1 n xs)
  show ?case
  proof (cases "xs = []")
    case True
    with "1.prems" show ?thesis by simp
  next
    case False
    then have pos: "0 < length xs" by simp
    have ih: "length (chunks n (drop n xs)) = (length (drop n xs) + n - 1) div n"
      using "1.IH" False "1.prems" by blast
    have A: "(length xs + n - 1) div n = Suc ((length xs - 1) div n)"
    proof -
      have e: "length xs + n - 1 = (length xs - 1) + n" using pos by arith
      have "((length xs - 1) + n) div n = Suc ((length xs - 1) div n)"
        using "1.prems" div_add_self2 [of n "length xs - 1"] by simp
      then show ?thesis by (simp only: e)
    qed
    have B: "(length (drop n xs) + n - 1) div n = (length xs - 1) div n"
    proof (cases "n \<le> length xs")
      case True
      then have "length (drop n xs) + n - 1 = length xs - 1" by simp
      then show ?thesis by (simp only:)
    next
      case False
      then have e: "length (drop n xs) + n - 1 = n - 1" by simp
      have "(n - 1) div n = 0" using "1.prems" by simp
      moreover have "(length xs - 1) div n = 0" using False by simp
      ultimately show ?thesis by (simp only: e)
    qed
    have "length (chunks n xs) = Suc (length (chunks n (drop n xs)))"
      using False "1.prems" by (simp add: chunks_step)
    with ih A B show ?thesis by (simp only:)
  qed
qed

lemma chunks_full:
  assumes "0 < n" and "length pl = n"
  shows "chunks n (pl @ rest) = pl # chunks n rest"
proof -
  from assms have "pl @ rest \<noteq> []" by auto
  with assms(1) have "chunks n (pl @ rest) = take n (pl @ rest) # chunks n (drop n (pl @ rest))"
    by (rule chunks_step)
  with assms(2) show ?thesis by simp
qed

lemma chunks_short:
  assumes "pl \<noteq> []" and "length pl \<le> n"
  shows "chunks n pl = [pl]"
proof -
  from assms have "0 < n" by (cases pl) auto
  from this assms(1) have "chunks n pl = take n pl # chunks n (drop n pl)"
    by (rule chunks_step)
  with assms(2) show ?thesis by simp
qed

lemma post_batches_single:
  "post_batches srv self [b] added w = post_payload srv self b added w"
  by (simp split: prod.splits sum.splits)

lemma addall_loop_batches:
  "0 < P \<Longrightarrow> int (length payload) < P \<Longrightarrow>
   (case addall_loop srv self P ts added payload w of
        (Inl e, w') \<Rightarrow> (Inl e, w')
      | (Inr (added', payload'), w') \<Rightarrow>
          (if length payload' \<noteq> 0 then post_payload srv self payload' added' w'
           else (Inr added', w')))
   = post_batches srv self (chunks (nat P) (payload @ map question_of ts)) added w"
proof (induction ts arbitrary: added payload w)
  case Nil
  show ?case
  proof (cases "payload = []")
    case True
    then show ?thesis by simp
  next
    case False
    with Nil have "chunks (nat P) payload = [payload]"
      by (intro chunks_short) simp_all
    with False show ?thesis by (simp split: prod.splits sum.splits)
  qed
next
  case (Cons t ts)
  let ?p1 = "payload @ [question_of t]"
  have step: "addall_loop srv self P (t # ts) added payload w =
      (if int (length ?p1) = P
       then (case post_payload srv self ?p1 added w of
               (Inl e, w') \<Rightarrow> (Inl e, w')
             | (Inr added1, w') \<Rightarrow> addall_loop srv self P ts added1 [] w')
       else addall_loop srv self P ts added ?p1 w)"
    by (cases t) (simp add: question_of_def Let_def)
  have app: "payload @ map question_of (t # ts) = ?p1 @ map question_of ts" by simp
  show ?case
  proof (cases "int (length ?p1) = P")
    case True
    then have len: "length ?p1 = nat P" by simp
    have ch: "chunks (nat P) (?p1 @ map question_of ts)
                = ?p1 # chunks (nat P) (map question_of ts)"
      using Cons.prems(1) len by (intro chunks_full) simp_all
    have ih: "\<And>added1 w1.
      (case addall_loop srv self P ts added1 [] w1 of
        (Inl e, w') \<Rightarrow> (Inl e, w')
      | (Inr (added', payload'), w') \<Rightarrow>
          (if length payload' \<noteq> 0 then post_payload srv self payload' added' w'
           else (Inr added', w')))
      = post_batches srv self (chunks (nat P) (map question_of ts)) added1 w1"
      using Cons.IH [of "[]"] Cons.prems(1) by simp
    show ?thesis
    proof (cases "post_payload srv self ?p1 added w")
      case (Pair r w1)
      show ?thesis
      proof (cases r)
        case (Inl e)
        with Pair True show ?thesis unfolding step app ch by simp
      next
        case (Inr added1)
        with Pair True ih [of added1 w1] show ?thesis unfolding step app ch by simp
      qed
    qed
  next
    case False
    with Cons.prems have lt: "int (length ?p1) < P" by simp
    from Cons.IH [OF Cons.prems(1) lt, of added w] False show ?thesis
      unfolding step app by simp
  qed
qed

lemma addall_batches_eq:
  "0 < P \<Longrightarrow>
     addall srv self ts P w = post_batches srv self (chunks (nat P) (map question_of ts)) [] w"
  using addall_loop_batches [of P "[]" srv self ts "[]" w] by (simp add: addall_def)

lemma post_payload_sent:
  "sent (snd (post_payload srv self b added w)) = sent w @ [questions_post self b]"
  by (auto simp: post_payload_def call_def split: prod.splits sum.splits)

lemma post_batches_sent:
  "fst (post_batches srv self bs added w) = Inr r \<Longrightarrow>
     sent (snd (post_batches srv self bs added w)) = sent w @ map (questions_post self) bs"
proof (induction bs arbitrary: added w)
  case Nil
  then show ?case by simp
next
  case (Cons b bs)
  obtain r1 w1 where p: "post_payload srv self b added w = (r1, w1)" by (cases "post_payload srv self b added w")
  with Cons.prems obtain added1 where r1: "r1 = Inr added1" by (cases r1) simp_all
  have s1: "sent w1 = sent w @ [questions_post self b]"
    using post_payload_sent [of srv self b added w] p by simp
  from Cons.prems p r1 have "fst (post_batches srv self bs added1 w1) = Inr r" by simp
  from Cons.IH [OF this] p r1 s1 show ?case by simp
qed

lemma store_all_append:
  "store_all f s (xs @ ys) =
     (case store_all f s xs of (r1, s1) \<Rightarrow>
        (case store_all f s1 ys of (r2, s2) \<Rightarrow> (r1 @ r2, s2)))"
  by (induction xs arbitrary: s) (auto split: prod.splits)

lemma post_payload_stores:
  assumes "stores_questions srv self f"
  shows "post_payload srv self b added w =
           (Inr (added @ fst (store_all f (server_state w) b)),
            w\<lparr>server_state := snd (store_all f (server_state w) b),
              sent := sent w @ [questions_post self b]\<rparr>)"
proof -
  obtain resp result where
    "srv (server_state w) (questions_post self b)
       = (Inr (resp, result), snd (store_all f (server_state w) b))"
    "getitem result ''questions'' = Inr (JList (fst (store_all f (server_state w) b)))"
    using assms unfolding stores_questions_def by blast
  then show ?thesis by (simp add: post_payload_def call_def)
qed

lemma post_batches_stores:
  assumes "stores_questions srv self f"
  shows "post_batches srv self bs added w =
           (Inr (added @ fst (store_all f (server_state w) (concat bs))),
            w\<lparr>server_state := snd (store_all f (server_state w) (concat bs)),
              sent := sent w @ map (questions_post self) bs\<rparr>)"
proof (induction bs arbitrary: added w)
  case Nil
  show ?case by simp
next
  case (Cons b bs)
  show ?case
    by (simp add: post_payload_stores [OF assms] Cons.IH store_all_append split: prod.splits)
qed

lemma addone_stores:
  assumes "stores_questions srv self f" and "valid_triple (a, s, m)"
  shows "addone srv self a s m w =
           (Inr (JList (fst (store_all f (server_state w) [make_question a s m]))),
            w\<lparr>server_state := snd (store_all f (server_state w) [make_question a s m]),
              sent := sent w @ [questions_post self [make_question a s m]]\<rparr>)"
proof -
  obtain resp result where
    "srv (server_state w) (questions_post self [make_question a s m])
       = (Inr (resp, result), snd (store_all f (server_state w) [make_question a s m]))"
    "getitem result ''questions''
       = Inr (JList (fst (store_all f (server_state w) [make_question a s m])))"
    using assms(1) unfolding stores_questions_def by blast
  with assms(2) show ?thesis by (simp add: addone_def call_def valid_triple_def)
qed

lemma addone_each_stores:
  assumes "stores_questions srv self f"
  shows "\<forall>t \<in> set ts. valid_triple t \<Longrightarrow>
         addone_each srv self ts w =
           (Inr (fst (store_all f (server_state w) (map question_of ts))),
            w\<lparr>server_state := snd (store_all f (server_state w) (map question_of ts)),
              sent := sent w @ map (\<lambda>t. questions_post self [question_of t]) ts\<rparr>)"
proof (induction ts arbitrary: w)
  case Nil
  show ?case by simp
next
  case (Cons t ts)
  obtain a s m where t: "t = (a, s, m)" by (cases t)
  have v: "valid_triple (a, s, m)" using Cons.prems t by simp
  have ih: "\<And>w. addone_each srv self ts w =
           (Inr (fst (store_all f (server_state w) (map question_of ts))),
            w\<lparr>server_state := snd (store_all f (server_state w) (map question_of ts)),
              sent := sent w @ map (\<lambda>t. questions_post self [question_of t]) ts\<rparr>)"
    using Cons.IH Cons.prems by simp
  have q: "question_of (a, s, m) = make_question a s m" by (simp add: question_of_def)
  show ?case
    by (simp add: t addone_stores [OF assms v] ih q split: prod.splits)
qed


lemma numbering_server_stores: "stores_questions numbering_server self number_question"
  by (simp add: stores_questions_def numbering_server_def questions_post_def)

lemma ceil_div_int:
  assumes "1 \<le> P"
  shows "int ((N + nat P - 1) div nat P) = (int N + P - 1) div P"
proof -
  from assms have "int (N + nat P - 1) = int N + P - 1" by simp
  moreover from assms have "int (nat P) = P" by simp
  ultimately show ?thesis by (simp only: zdiv_int)
qed

text \<open>
  C1, for a page size of at least 1. \<^verbatim>\<open>addall\<close> posts the questions built from the
  three-tuples in pieces of \<open>P\<close>, cut from the front in input order, the last piece
  holding what is left, and extends \<^verbatim>\<open>added\<close> by what each answer returns, in that
  order. There are \<open>\<lceil>N/P\<rceil>\<close> pieces, none empty and none longer than \<open>P\<close>, and
  when the call returns, exactly these requests were issued. Against a server that stores
  the questions of a payload one at a time and answers with their records in order, the
  result is the list of the records of all \<open>N\<close> questions, which is also what calling
  \<^verbatim>\<open>addone\<close> for each accepted three-tuple in turn produces, and both leave the server
  in the same state.
\<close>

theorem addall_batches_in_order:
  assumes "1 \<le> P"
  shows
    "addall srv self ts P w
       = post_batches srv self (chunks (nat P) (map question_of ts)) [] w
     \<and> int (length (chunks (nat P) (map question_of ts))) = (int (length ts) + P - 1) div P
     \<and> (\<forall>b \<in> set (chunks (nat P) (map question_of ts)). b \<noteq> [] \<and> int (length b) \<le> P)
     \<and> concat (chunks (nat P) (map question_of ts)) = map question_of ts
     \<and> (fst (addall srv self ts P w) = Inr added
        \<longrightarrow> sent (snd (addall srv self ts P w))
              = sent w @ map (questions_post self) (chunks (nat P) (map question_of ts)))
     \<and> (stores_questions srv self f \<and> (\<forall>t \<in> set ts. valid_triple t)
        \<longrightarrow> fst (addall srv self ts P w)
              = Inr (fst (store_all f (server_state w) (map question_of ts)))
            \<and> fst (addone_each srv self ts w) = fst (addall srv self ts P w)
            \<and> server_state (snd (addone_each srv self ts w))
              = server_state (snd (addall srv self ts P w)))"
proof -
  let ?bs = "chunks (nat P) (map question_of ts)"
  from assms have pos: "0 < P" "0 < nat P" by simp_all
  have eq: "addall srv self ts P w = post_batches srv self ?bs [] w"
    using pos(1) by (rule addall_batches_eq)
  have len: "int (length ?bs) = (int (length ts) + P - 1) div P"
    using length_chunks [OF pos(2), of "map question_of ts"] ceil_div_int [OF assms, of "length ts"]
    by simp
  have bnd: "\<forall>b \<in> set ?bs. b \<noteq> [] \<and> int (length b) \<le> P"
  proof
    fix b
    assume "b \<in> set ?bs"
    then have "b \<noteq> [] \<and> length b \<le> nat P" by (rule chunks_bounds)
    then show "b \<noteq> [] \<and> int (length b) \<le> P" using assms by auto
  qed
  have cc: "concat ?bs = map question_of ts"
    using pos(2) by (rule concat_chunks)
  have snt: "fst (addall srv self ts P w) = Inr added
        \<longrightarrow> sent (snd (addall srv self ts P w)) = sent w @ map (questions_post self) ?bs"
    unfolding eq using post_batches_sent [of srv self ?bs "[]" w added] by blast
  have srvd: "stores_questions srv self f \<and> (\<forall>t \<in> set ts. valid_triple t)
        \<longrightarrow> fst (addall srv self ts P w)
              = Inr (fst (store_all f (server_state w) (map question_of ts)))
            \<and> fst (addone_each srv self ts w) = fst (addall srv self ts P w)
            \<and> server_state (snd (addone_each srv self ts w))
              = server_state (snd (addall srv self ts P w))"
  proof
    assume h: "stores_questions srv self f \<and> (\<forall>t \<in> set ts. valid_triple t)"
    then have st: "stores_questions srv self f" and v: "\<forall>t \<in> set ts. valid_triple t"
      by simp_all
    show "fst (addall srv self ts P w)
              = Inr (fst (store_all f (server_state w) (map question_of ts)))
            \<and> fst (addone_each srv self ts w) = fst (addall srv self ts P w)
            \<and> server_state (snd (addone_each srv self ts w))
              = server_state (snd (addall srv self ts P w))"
      unfolding eq
      by (simp add: post_batches_stores [OF st] addone_each_stores [OF st v] cc)
  qed
  from eq len bnd cc snt srvd show ?thesis by blast
qed


lemma valid_examples:
  "valid_triple triple_a1" "valid_triple triple_a2" "valid_triple triple_a3"
  by (simp_all add: valid_triple_def rebinds_def triple_a1_def triple_a2_def triple_a3_def)

lemma chunks_example:
  "chunks (nat 2) (map question_of [triple_a1, triple_a2, triple_a3])
     = [[question_of triple_a1, question_of triple_a2], [question_of triple_a3]]"
  by (simp add: chunks.simps)

theorem addall_batches_in_order_witness:
  "(1::int) \<le> 2
   \<and> valid_triple triple_a1 \<and> valid_triple triple_a2 \<and> valid_triple triple_a3
   \<and> (int (length [triple_a1, triple_a2, triple_a3]) + 2 - 1) div 2 = 2
   \<and> addall numbering_server queue1 [triple_a1, triple_a2, triple_a3] 2 world0
       = (Inr [JDict [(''id'', JInt 0), (''question'', question_of triple_a1)],
               JDict [(''id'', JInt 1), (''question'', question_of triple_a2)],
               JDict [(''id'', JInt 2), (''question'', question_of triple_a3)]],
          \<lparr>server_state = 3,
            sent = [questions_post queue1 [question_of triple_a1, question_of triple_a2],
                    questions_post queue1 [question_of triple_a3]],
            logged = []\<rparr>)
   \<and> fst (addone_each numbering_server queue1 [triple_a1, triple_a2, triple_a3] world0)
       = Inr [JDict [(''id'', JInt 0), (''question'', question_of triple_a1)],
              JDict [(''id'', JInt 1), (''question'', question_of triple_a2)],
              JDict [(''id'', JInt 2), (''question'', question_of triple_a3)]]"
proof -
  let ?ts = "[triple_a1, triple_a2, triple_a3]"
  have one: "(1::int) \<le> 2" by simp
  have pb: "post_batches numbering_server queue1
              [[question_of triple_a1, question_of triple_a2], [question_of triple_a3]] [] world0
       = (Inr [JDict [(''id'', JInt 0), (''question'', question_of triple_a1)],
               JDict [(''id'', JInt 1), (''question'', question_of triple_a2)],
               JDict [(''id'', JInt 2), (''question'', question_of triple_a3)]],
          \<lparr>server_state = 3,
            sent = [questions_post queue1 [question_of triple_a1, question_of triple_a2],
                    questions_post queue1 [question_of triple_a3]],
            logged = []\<rparr>)"
    by (simp add: post_payload_def call_def numbering_server_def questions_post_def
          number_question_def world0_def)
  have st: "fst (store_all number_question (server_state world0) (map question_of ?ts))
      = [JDict [(''id'', JInt 0), (''question'', question_of triple_a1)],
               JDict [(''id'', JInt 1), (''question'', question_of triple_a2)],
               JDict [(''id'', JInt 2), (''question'', question_of triple_a3)]]"
    by (simp add: number_question_def world0_def)
  show ?thesis
    using addall_batches_in_order [OF one, of numbering_server queue1 ?ts world0 _ number_question]
      numbering_server_stores [of queue1] valid_examples chunks_example pb st
    by simp
qed

text \<open>
  With a page size of 0 the payload never has the length tested for, so everything goes out
  in the request after the loop: one three-tuple gives a request of one question, more than
  the page size.
\<close>

theorem addall_pagesize_zero_counterexample:
  "sent (snd (addall numbering_server queue1 [triple_a1] 0 world0))
     = [questions_post queue1 [question_of triple_a1]]
   \<and> \<not> int (length [question_of triple_a1]) \<le> 0"
  by (simp add: addall_def post_payload_def call_def numbering_server_def questions_post_def
        number_question_def world0_def triple_a1_def question_of_def)


subsection \<open>Fetching all questions page by page\<close>

lemma RabjQuestion_init_record:
  "truthy q \<Longrightarrow> RabjQuestion_init srv q JNone JNone w = (Inr \<lparr>question = q\<rparr>, w)"
  by (cases q) (simp_all add: RabjQuestion_init_def)

lemma wrap_questions_truthy:
  "\<forall>q \<in> set recs. truthy q \<Longrightarrow>
     wrap_questions srv recs w = (Inr (map (\<lambda>q. \<lparr>question = q\<rparr>) recs), w)"
  by (induction recs) (simp_all add: RabjQuestion_init_record)

lemma getall_loop_page:
  assumes sp: "serves_pages srv self state sn jd bd P qs"
    and tr: "\<forall>q \<in> set qs. truthy q"
    and P: "1 \<le> P"
  shows "\<exists>resp result s'.
      srv (server_state w) (questions_get self state (getall_params P (int off) sn jd bd))
        = (Inr (resp, result), s')
      \<and> getall_loop srv self state bd jd sn P (int off) acc w =
         (let page = take (nat P) (drop off qs);
              w1 = w\<lparr>server_state := s',
                     sent := sent w @ [questions_get self state
                                         (getall_params P (int off) sn jd bd)]\<rparr>
          in if int (length page) < P
             then Some (Inr (acc @ map (\<lambda>q. \<lparr>question = q\<rparr>) page), w1)
             else getall_loop srv self state bd jd sn P (int off + P)
                    (acc @ map (\<lambda>q. \<lparr>question = q\<rparr>) page) w1)"
proof -
  let ?page = "take (nat P) (drop off qs)"
  obtain resp result s' where
    r: "srv (server_state w) (questions_get self state (getall_params P (int off) sn jd bd))
          = (Inr (resp, result), s')"
    and g: "getitem result ''questions'' = Inr (JList ?page)"
    using sp [unfolded serves_pages_def, rule_format, of "server_state w" off]
    by auto
  have "\<forall>q \<in> set ?page. truthy q"
    using tr by (meson in_set_dropD in_set_takeD)
  then have wr: "\<And>w. wrap_questions srv ?page w = (Inr (map (\<lambda>q. \<lparr>question = q\<rparr>) ?page), w)"
    by (rule wrap_questions_truthy)
  show ?thesis
    apply (rule exI [of _ resp], rule exI [of _ result], rule exI [of _ s'])
    apply (rule conjI [OF r])
    apply (subst getall_loop.simps)
    apply (simp add: call_def r g wr Let_def)
    done
qed

lemma getall_loop_run:
  assumes sp: "serves_pages srv self state sn jd bd P qs"
    and tr: "\<forall>q \<in> set qs. truthy q"
    and P: "1 \<le> P"
  shows "\<exists>w'. getall_loop srv self state bd jd sn P (int off) acc w
                 = Some (Inr (acc @ map (\<lambda>q. \<lparr>question = q\<rparr>) (drop off qs)), w')
             \<and> sent w' = sent w @
                  map (\<lambda>k. questions_get self state
                              (getall_params P (int off + int k * P) sn jd bd))
                      [0 ..< (length qs - off) div nat P + 1]"
proof (induction "length qs - off" arbitrary: off acc w rule: less_induct)
  case less
  let ?g = "\<lambda>i. questions_get self state (getall_params P i sn jd bd)"
  let ?wrap = "map (\<lambda>q. \<lparr>question = q\<rparr>)"
  let ?page = "take (nat P) (drop off qs)"
  obtain resp result s' where
    step: "getall_loop srv self state bd jd sn P (int off) acc w =
         (let page = ?page;
              w1 = w\<lparr>server_state := s', sent := sent w @ [?g (int off)]\<rparr>
          in if int (length page) < P
             then Some (Inr (acc @ ?wrap page), w1)
             else getall_loop srv self state bd jd sn P (int off + P) (acc @ ?wrap page) w1)"
    using getall_loop_page [OF sp tr P, where w = w and off = off and acc = acc] by blast
  let ?w1 = "w\<lparr>server_state := s', sent := sent w @ [?g (int off)]\<rparr>"
  have nP: "0 < nat P" "int (nat P) = P" using P by simp_all
  show ?case
  proof (cases "int (length ?page) < P")
    case True
    then have short: "length qs - off < nat P" using nP by auto
    then have pg: "?page = drop off qs" by simp
    have d: "(length qs - off) div nat P = 0" using short by simp
    have "getall_loop srv self state bd jd sn P (int off) acc w
            = Some (Inr (acc @ ?wrap (drop off qs)), ?w1)"
      using True pg unfolding step by (simp add: Let_def)
    moreover have "sent ?w1 = sent w @ map (\<lambda>k. ?g (int off + int k * P))
                      [0 ..< (length qs - off) div nat P + 1]"
      by (simp add: d)
    ultimately show ?thesis by blast
  next
    case False
    then have full: "nat P \<le> length qs - off" using nP by auto
    have smaller: "length qs - (off + nat P) < length qs - off" using full nP by arith
    have o: "int off + P = int (off + nat P)" using nP by simp
    obtain w' where
      r: "getall_loop srv self state bd jd sn P (int (off + nat P)) (acc @ ?wrap ?page) ?w1
            = Some (Inr ((acc @ ?wrap ?page) @ ?wrap (drop (off + nat P) qs)), w')"
      and s: "sent w' = sent ?w1 @ map (\<lambda>k. ?g (int (off + nat P) + int k * P))
                      [0 ..< (length qs - (off + nat P)) div nat P + 1]"
      using less [OF smaller, of "acc @ ?wrap ?page" ?w1] by blast
    have cat: "?wrap ?page @ ?wrap (drop (off + nat P) qs) = ?wrap (drop off qs)"
    proof -
      have "?page @ drop (nat P) (drop off qs) = drop off qs" by (rule append_take_drop_id)
      moreover have "drop (nat P) (drop off qs) = drop (off + nat P) qs"
        by (simp add: add.commute)
      ultimately have "?page @ drop (off + nat P) qs = drop off qs" by simp
      then show ?thesis by (metis map_append)
    qed
    have res: "getall_loop srv self state bd jd sn P (int off) acc w
            = Some (Inr (acc @ ?wrap (drop off qs)), w')"
      using False r cat unfolding step o by (simp add: Let_def)
    have d: "(length qs - off) div nat P = Suc ((length qs - (off + nat P)) div nat P)"
      using full nP le_div_geq [of "nat P" "length qs - off"] by simp
    have shift: "\<And>k. int (off + nat P) + int k * P = int off + int (Suc k) * P"
      using nP by (simp add: algebra_simps)
    have "sent w' = sent w @ map (\<lambda>k. ?g (int off + int k * P))
                      [0 ..< (length qs - off) div nat P + 1]"
      unfolding s d shift by (simp add: map_upt_Suc del: upt_Suc)
    with res show ?thesis by blast
  qed
qed

lemma paging_server_serves: "serves_pages (paging_server qs) self state sn jd bd P qs"
  by (simp add: serves_pages_def paging_server_def questions_get_def getall_params_def)

text \<open>A server that honours the \<open>body\<close> filter serves one list with it and another
  without it.\<close>

lemma body_server_serves:
  "serves_pages body_server self state sn jd (JBool True) P
     [JDict [(''id'', JStr ''q1''), (''assertion'', JStr ''a1'')]]"
  "serves_pages body_server self state sn jd (JBool False) P [JDict [(''id'', JStr ''q1'')]]"
  by (simp_all add: serves_pages_def body_server_def questions_get_def getall_params_def)

lemma full_pages:
  assumes "0 < n" and "k < length qs div n"
  shows "length (take n (drop (k * n) qs)) = n"
proof -
  from assms(2) have "Suc k \<le> length qs div n" by simp
  then have "Suc k * n \<le> (length qs div n) * n" by (rule mult_le_mono1)
  also have "\<dots> \<le> length qs" by simp
  finally have "k * n + n \<le> length qs" by simp
  then show ?thesis by simp
qed

lemma last_page_short:
  assumes "0 < n"
  shows "length (take n (drop (length qs div n * n) qs)) < n"
proof -
  have "length qs - length qs div n * n = length qs mod n"
    by (simp add: minus_div_mult_eq_mod)
  with assms show ?thesis by simp
qed

lemma getall_serves_all:
  assumes "1 \<le> P" and "serves_pages srv self state sn jd bd P qs"
    and "\<forall>q \<in> set qs. truthy q"
  shows "\<exists>result w'.
           getall srv self state bd jd sn P w = Some (Inr result, w')
           \<and> map question result = qs
           \<and> length result = length qs
           \<and> sent w' = sent w @
                map (\<lambda>k. questions_get self state (getall_params P (int k * P) sn jd bd))
                    [0 ..< length qs div nat P + 1]
           \<and> (\<forall>k < length qs div nat P. length (take (nat P) (drop (k * nat P) qs)) = nat P)
           \<and> length (take (nat P) (drop (length qs div nat P * nat P) qs)) < nat P"
proof -
  let ?result = "map (\<lambda>q. \<lparr>question = q\<rparr>) qs"
  from assms(1) have nP: "0 < nat P" by simp
  obtain w' where
    r: "getall_loop srv self state bd jd sn P (int 0) [] w = Some (Inr ([] @ ?result), w')"
    and s: "sent w' = sent w @
              map (\<lambda>k. questions_get self state (getall_params P (int 0 + int k * P) sn jd bd))
                  [0 ..< (length qs - 0) div nat P + 1]"
    using getall_loop_run [OF assms(2) assms(3) assms(1), where off = 0 and acc = "[]" and w = w]
    by auto
  have m: "map question ?result = qs" by (simp add: comp_def)
  have "getall srv self state bd jd sn P w = Some (Inr ?result, w')"
    using r by (simp add: getall_def)
  moreover have "sent w' = sent w @
                map (\<lambda>k. questions_get self state (getall_params P (int k * P) sn jd bd))
                    [0 ..< length qs div nat P + 1]"
    using s by simp
  moreover have "\<forall>k < length qs div nat P. length (take (nat P) (drop (k * nat P) qs)) = nat P"
    using full_pages [OF nP] by blast
  moreover have "length (take (nat P) (drop (length qs div nat P * nat P) qs)) < nat P"
    using nP by (rule last_page_short)
  moreover have "length ?result = length qs" by simp
  ultimately show ?thesis using m by blast
qed

text \<open>
  With a page size of 0 no page is shorter than the page size: the offset stays where it is
  and the loop does not end.
\<close>

lemma getall_loop_pagesize_zero:
  "getall_loop (paging_server qs) self state bd jd sn 0 off acc w \<noteq> Some r"
proof
  assume ret: "getall_loop (paging_server qs) self state bd jd sn 0 off acc w = Some r"
  have "(paging_server qs :: nat remote) = paging_server qs \<and> (0::int) = 0 \<longrightarrow> False"
  proof (rule getall_loop.raw_induct
      [where P = "\<lambda>srv self state bd jd sn pagesize off acc w r.
                    srv = paging_server qs \<and> pagesize = 0 \<longrightarrow> False", OF _ ret])
    fix f :: "nat remote \<Rightarrow> rabjqueue \<Rightarrow> json \<Rightarrow> json \<Rightarrow> json \<Rightarrow> json \<Rightarrow> int \<Rightarrow> int
                \<Rightarrow> rabjquestion list \<Rightarrow> nat world
                \<Rightarrow> ((error + rabjquestion list) \<times> nat world) option"
    fix srv self state bd jd sn pagesize off acc w r
    assume IH: "\<And>srv self state bd jd sn pagesize off acc w r.
                  f srv self state bd jd sn pagesize off acc w = Some r \<Longrightarrow>
                  srv = paging_server qs \<and> pagesize = 0 \<longrightarrow> False"
    assume body: "(case call srv (questions_get self state
                       (getall_params pagesize off sn jd bd)) w of
        (Inl e, w1) \<Rightarrow> Some (Inl e, w1)
      | (Inr (resp, result), w1) \<Rightarrow>
          (case getitem result ''questions'' of
             Inl e \<Rightarrow> Some (Inl e, w1)
           | Inr page \<Rightarrow>
               (case py_iter page of
                  Inl e \<Rightarrow> Some (Inl e, w1)
                | Inr recs \<Rightarrow>
                    (case wrap_questions srv recs w1 of
                       (Inl e, w2) \<Rightarrow> Some (Inl e, w2)
                     | (Inr wrapped, w2) \<Rightarrow>
                         (case py_len page of
                            Inl e \<Rightarrow> Some (Inl e, w2)
                          | Inr n \<Rightarrow>
                              (if n < pagesize
                               then Some (Inr (acc @ wrapped), w2)
                               else f srv self state bd jd sn pagesize
                                      (off + pagesize) (acc @ wrapped) w2)))))) = Some r"
    show "srv = paging_server qs \<and> pagesize = 0 \<longrightarrow> False"
    proof
      assume a: "srv = paging_server qs \<and> pagesize = 0"
      with body have "\<exists>w2. f (paging_server qs) self state bd jd sn 0 off acc w2 = Some r"
        by (auto simp: call_def paging_server_def questions_get_def getall_params_def)
      with IH show False by blast
    qed
  qed
  then show False by simp
qed

text \<open>
  The claim as written fails for a page size of 0, where \<^verbatim>\<open>getall\<close> does not return,
  and for a page that holds an empty record: wrapping it issues a GET on
  \<^verbatim>\<open>RabjCallable(None)[None]\<close>, and here that request fails, so no sequence is
  returned although the server served its one short page.
\<close>

theorem getall_no_sequence_counterexample:
  "getall (paging_server three_records) queue1 JNone (JBool True) (JBool False) JNone 0 world0
     = None
   \<and> getall (paging_server [JDict [(''id'', JStr ''q1'')], JDict []]) queue1 JNone (JBool True)
        (JBool False) JNone 5 world0
     = Some (Inl (Remote ''bad request''),
             \<lparr>server_state = 1,
               sent = [\<lparr>target = Container queue_rec, path = [JStr ''questions''], meth = GET,
                        kwargs = [(''limit'', JInt 5), (''offset'', JInt 0),
                                  (''body'', JBool True)]\<rparr>,
                       \<lparr>target = RabjCallable JNone JNone, path = [JNone], meth = GET,
                        kwargs = []\<rparr>],
               logged = []\<rparr>)"
proof
  show "getall (paging_server three_records) queue1 JNone (JBool True) (JBool False) JNone 0
          world0 = None"
    using getall_loop_pagesize_zero
            [of three_records queue1 JNone "JBool True" "JBool False" JNone 0 "[]" world0]
    by (cases "getall (paging_server three_records) queue1 JNone (JBool True) (JBool False)
                 JNone 0 world0") (simp_all add: getall_def)
  show "getall (paging_server [JDict [(''id'', JStr ''q1'')], JDict []]) queue1 JNone (JBool True)
        (JBool False) JNone 5 world0
     = Some (Inl (Remote ''bad request''),
             \<lparr>server_state = 1,
               sent = [\<lparr>target = Container queue_rec, path = [JStr ''questions''], meth = GET,
                        kwargs = [(''limit'', JInt 5), (''offset'', JInt 0),
                                  (''body'', JBool True)]\<rparr>,
                       \<lparr>target = RabjCallable JNone JNone, path = [JNone], meth = GET,
                        kwargs = []\<rparr>],
               logged = []\<rparr>)"
    by (simp add: getall_def getall_loop.simps call_def paging_server_def questions_get_def
          getall_params_def RabjQuestion_init_def get_request_def world0_def queue1_def)
qed

lemma py_len_nonneg: "py_len x = Inr n \<Longrightarrow> 0 \<le> n"
  by (cases x) auto

text \<open>Whatever the server does, \<^verbatim>\<open>getall\<close> returns a list only for a page size of at
  least 1.\<close>

lemma getall_loop_returns_positive:
  assumes ret: "getall_loop (srv :: 's remote) self state bd jd sn pagesize off acc w = Some r"
  shows "\<forall>res w'. r = (Inr res, w') \<longrightarrow> 1 \<le> pagesize"
proof (rule getall_loop.raw_induct
      [where P = "\<lambda>srv self state bd jd sn pagesize off acc w r.
                    \<forall>res w'. r = (Inr res, w') \<longrightarrow> 1 \<le> pagesize", OF _ ret])
  fix f :: "'s remote \<Rightarrow> rabjqueue \<Rightarrow> json \<Rightarrow> json \<Rightarrow> json \<Rightarrow> json \<Rightarrow> int \<Rightarrow> int
                \<Rightarrow> rabjquestion list \<Rightarrow> 's world
                \<Rightarrow> ((error + rabjquestion list) \<times> 's world) option"
  fix srv self state bd jd sn pagesize off acc w r
  assume IH: "\<And>srv self state bd jd sn pagesize off acc w r.
                  f srv self state bd jd sn pagesize off acc w = Some r \<Longrightarrow>
                  \<forall>res w'. r = (Inr res, w') \<longrightarrow> 1 \<le> pagesize"
  assume body: "(case call srv (questions_get self state
                       (getall_params pagesize off sn jd bd)) w of
        (Inl e, w1) \<Rightarrow> Some (Inl e, w1)
      | (Inr (resp, result), w1) \<Rightarrow>
          (case getitem result ''questions'' of
             Inl e \<Rightarrow> Some (Inl e, w1)
           | Inr page \<Rightarrow>
               (case py_iter page of
                  Inl e \<Rightarrow> Some (Inl e, w1)
                | Inr recs \<Rightarrow>
                    (case wrap_questions srv recs w1 of
                       (Inl e, w2) \<Rightarrow> Some (Inl e, w2)
                     | (Inr wrapped, w2) \<Rightarrow>
                         (case py_len page of
                            Inl e \<Rightarrow> Some (Inl e, w2)
                          | Inr n \<Rightarrow>
                              (if n < pagesize
                               then Some (Inr (acc @ wrapped), w2)
                               else f srv self state bd jd sn pagesize
                                      (off + pagesize) (acc @ wrapped) w2)))))) = Some r"
  show "\<forall>res w'. r = (Inr res, w') \<longrightarrow> 1 \<le> pagesize"
  proof (intro allI impI)
    fix res w'
    assume r: "r = (Inr res, w')"
    from body r show "1 \<le> pagesize"
      by (auto split: prod.splits sum.splits if_splits dest: py_len_nonneg IH)
  qed
qed

lemma getall_loop_round:
  assumes "call srv (questions_get self state (getall_params P off sn jd bd)) w
             = (Inr (resp, result), w1)"
    and "getitem result ''questions'' = Inr (JList recs)"
    and "\<forall>q \<in> set recs. truthy q"
  shows "getall_loop srv self state bd jd sn P off acc w =
           (if int (length recs) < P
            then Some (Inr (acc @ map (\<lambda>q. \<lparr>question = q\<rparr>) recs), w1)
            else getall_loop srv self state bd jd sn P (off + P)
                   (acc @ map (\<lambda>q. \<lparr>question = q\<rparr>) recs) w1)"
  by (subst getall_loop.simps) (simp add: assms wrap_questions_truthy)

lemma questions_get_eq:
  "questions_get self state (getall_params P off sn jd bd) =
     \<lparr>target = Container (queue self),
             path = (if truthy state then [JStr ''questions'', state] else [JStr ''questions'']),
             meth = GET,
             kwargs = [(''limit'', JInt P), (''offset'', JInt (off))]
                      @ (if truthy sn then [(''since'', sn)] else [])
                      @ (if truthy jd then [(''judgments'', jd)] else [])
                      @ (if truthy bd then [(''body'', bd)] else [])\<rparr>"
  by (simp add: questions_get_def getall_params_def)

text \<open>
  C2. One round of the loop, against any server: when the GET on the questions of the
  queue (under \<open>state\<close> when one is given) with limit \<open>P\<close>, the current offset and
  the filters that were given is answered with a list of non-empty records, they are
  appended, wrapped, in the order returned; the loop ends there when the list has fewer
  than \<open>P\<close> entries, and goes on at offset plus \<open>P\<close> otherwise. For a page size of at
  least 1 and a server that serves a list \<open>qs\<close> of non-empty question records by offset
  and limit for this state and these filters, \<^verbatim>\<open>getall\<close> returns; the result wraps
  the records of \<open>qs\<close> in order, so its length is the number of matching questions; the
  requests issued are these GETs at the offsets \<open>0, P, 2P, \<dots>\<close> up to
  \<open>(N div P) * P\<close>; every page before the last one is full and the last one holds fewer
  than \<open>P\<close> records.
\<close>

theorem getall_pages_until_short:
  "(call srv
         \<lparr>target = Container (queue self),
             path = (if truthy state then [JStr ''questions'', state] else [JStr ''questions'']),
             meth = GET,
             kwargs = [(''limit'', JInt P), (''offset'', JInt (off))]
                      @ (if truthy sn then [(''since'', sn)] else [])
                      @ (if truthy jd then [(''judgments'', jd)] else [])
                      @ (if truthy bd then [(''body'', bd)] else [])\<rparr> w
        = (Inr (resp, page), w1)
      \<and> getitem page ''questions'' = Inr (JList recs)
      \<and> (\<forall>q \<in> set recs. truthy q)
      \<longrightarrow> getall_loop srv self state bd jd sn P off acc w =
           (if int (length recs) < P
            then Some (Inr (acc @ map (\<lambda>q. \<lparr>question = q\<rparr>) recs), w1)
            else getall_loop srv self state bd jd sn P (off + P)
                   (acc @ map (\<lambda>q. \<lparr>question = q\<rparr>) recs) w1))
   \<and> (1 \<le> P \<and> serves_pages srv self state sn jd bd P qs \<and> (\<forall>q \<in> set qs. truthy q)
      \<longrightarrow> (\<exists>result w'.
           getall srv self state bd jd sn P w = Some (Inr result, w')
           \<and> map question result = qs
           \<and> length result = length qs
           \<and> sent w' = sent w @
                map (\<lambda>k.
         \<lparr>target = Container (queue self),
             path = (if truthy state then [JStr ''questions'', state] else [JStr ''questions'']),
             meth = GET,
             kwargs = [(''limit'', JInt P), (''offset'', JInt (int k * P))]
                      @ (if truthy sn then [(''since'', sn)] else [])
                      @ (if truthy jd then [(''judgments'', jd)] else [])
                      @ (if truthy bd then [(''body'', bd)] else [])\<rparr>)
                    [0 ..< length qs div nat P + 1]
           \<and> (\<forall>k < length qs div nat P. length (take (nat P) (drop (k * nat P) qs)) = nat P)
           \<and> length (take (nat P) (drop (length qs div nat P * nat P) qs)) < nat P))"
proof (intro conjI impI)
  assume "call srv
         \<lparr>target = Container (queue self),
             path = (if truthy state then [JStr ''questions'', state] else [JStr ''questions'']),
             meth = GET,
             kwargs = [(''limit'', JInt P), (''offset'', JInt (off))]
                      @ (if truthy sn then [(''since'', sn)] else [])
                      @ (if truthy jd then [(''judgments'', jd)] else [])
                      @ (if truthy bd then [(''body'', bd)] else [])\<rparr> w
        = (Inr (resp, page), w1)
      \<and> getitem page ''questions'' = Inr (JList recs)
      \<and> (\<forall>q \<in> set recs. truthy q)"
  then have "call srv (questions_get self state (getall_params P off sn jd bd)) w
               = (Inr (resp, page), w1)"
    and "getitem page ''questions'' = Inr (JList recs)"
    and "\<forall>q \<in> set recs. truthy q"
    by (simp_all add: questions_get_eq)
  then show "getall_loop srv self state bd jd sn P off acc w =
           (if int (length recs) < P
            then Some (Inr (acc @ map (\<lambda>q. \<lparr>question = q\<rparr>) recs), w1)
            else getall_loop srv self state bd jd sn P (off + P)
                   (acc @ map (\<lambda>q. \<lparr>question = q\<rparr>) recs) w1)"
    by (rule getall_loop_round)
next
  assume "1 \<le> P \<and> serves_pages srv self state sn jd bd P qs \<and> (\<forall>q \<in> set qs. truthy q)"
  then have "1 \<le> P" and "serves_pages srv self state sn jd bd P qs"
    and "\<forall>q \<in> set qs. truthy q"
    by simp_all
  from getall_serves_all [OF this, of w, unfolded questions_get_eq]
  show "\<exists>result w'.
           getall srv self state bd jd sn P w = Some (Inr result, w')
           \<and> map question result = qs
           \<and> length result = length qs
           \<and> sent w' = sent w @
                map (\<lambda>k.
         \<lparr>target = Container (queue self),
             path = (if truthy state then [JStr ''questions'', state] else [JStr ''questions'']),
             meth = GET,
             kwargs = [(''limit'', JInt P), (''offset'', JInt (int k * P))]
                      @ (if truthy sn then [(''since'', sn)] else [])
                      @ (if truthy jd then [(''judgments'', jd)] else [])
                      @ (if truthy bd then [(''body'', bd)] else [])\<rparr>)
                    [0 ..< length qs div nat P + 1]
           \<and> (\<forall>k < length qs div nat P. length (take (nat P) (drop (k * nat P) qs)) = nat P)
           \<and> length (take (nat P) (drop (length qs div nat P * nat P) qs)) < nat P" .
qed

theorem getall_pages_until_short_witness:
  "call (paging_server three_records)
        \<lparr>target = Container queue_rec, path = [JStr ''questions''], meth = GET,
         kwargs = [(''limit'', JInt 2), (''offset'', JInt 0), (''body'', JBool True)]\<rparr> world0
     = (Inr (JDict [], JDict [(''questions'', JList (take 2 three_records))]),
        \<lparr>server_state = 1,
          sent = [\<lparr>target = Container queue_rec, path = [JStr ''questions''], meth = GET,
                   kwargs = [(''limit'', JInt 2), (''offset'', JInt 0),
                             (''body'', JBool True)]\<rparr>],
          logged = []\<rparr>)
   \<and> truthy (three_records ! 0) \<and> truthy (three_records ! 1) \<and> truthy (three_records ! 2)
   \<and> getall_loop (paging_server three_records) queue1 JNone (JBool True) (JBool False) JNone 2 0
        [] world0
     = getall_loop (paging_server three_records) queue1 JNone (JBool True) (JBool False) JNone 2
         (0 + 2) ([] @ map (\<lambda>q. \<lparr>question = q\<rparr>) (take 2 three_records))
         \<lparr>server_state = 1,
           sent = [\<lparr>target = Container queue_rec, path = [JStr ''questions''], meth = GET,
                    kwargs = [(''limit'', JInt 2), (''offset'', JInt 0),
                              (''body'', JBool True)]\<rparr>],
           logged = []\<rparr>
   \<and> (1::int) \<le> 2
   \<and> getall (paging_server three_records) queue1 JNone (JBool True) (JBool False) JNone 2 world0
     = Some (Inr (map (\<lambda>q. \<lparr>question = q\<rparr>) three_records),
             \<lparr>server_state = 2,
               sent = [\<lparr>target = Container queue_rec, path = [JStr ''questions''], meth = GET,
                        kwargs = [(''limit'', JInt 2), (''offset'', JInt 0),
                                  (''body'', JBool True)]\<rparr>,
                       \<lparr>target = Container queue_rec, path = [JStr ''questions''], meth = GET,
                        kwargs = [(''limit'', JInt 2), (''offset'', JInt 2),
                                  (''body'', JBool True)]\<rparr>],
               logged = []\<rparr>)
   \<and> length (map (\<lambda>q. \<lparr>question = q\<rparr>) three_records) = length three_records
   \<and> length (take (nat 2) (drop (0 * nat 2) three_records)) = nat 2
   \<and> length (take (nat 2) (drop (length three_records div nat 2 * nat 2) three_records)) < nat 2"
proof -
  let ?rq0 = "\<lparr>target = Container queue_rec, path = [JStr ''questions''], meth = GET,
               kwargs = [(''limit'', JInt 2), (''offset'', JInt 0), (''body'', JBool True)]\<rparr>"
  let ?rq2 = "\<lparr>target = Container queue_rec, path = [JStr ''questions''], meth = GET,
               kwargs = [(''limit'', JInt 2), (''offset'', JInt 2), (''body'', JBool True)]\<rparr>"
  let ?w1 = "\<lparr>server_state = 1::nat, sent = [?rq0], logged = []\<rparr>"
  let ?body = "JDict [(''questions'', JList (take 2 three_records))]"
  have c: "call (paging_server three_records) ?rq0 world0 = (Inr (JDict [], ?body), ?w1)"
    by (simp add: call_def paging_server_def world0_def)
  have g: "getitem ?body ''questions'' = Inr (JList (take 2 three_records))" by simp
  have tr2: "\<forall>q \<in> set (take 2 three_records). truthy q" by (simp add: three_records_def)
  have l2: "\<not> int (length (take 2 three_records)) < 2" by (simp add: three_records_def)
  have tr: "\<forall>q \<in> set three_records. truthy q" by (simp add: three_records_def)
  have ps: "serves_pages (paging_server three_records) queue1 JNone JNone (JBool False)
              (JBool True) 2 three_records"
    by (rule paging_server_serves)
  have ev: "getall (paging_server three_records) queue1 JNone (JBool True) (JBool False) JNone 2
              world0
     = Some (Inr (map (\<lambda>q. \<lparr>question = q\<rparr>) three_records),
             \<lparr>server_state = 2, sent = [?rq0, ?rq2], logged = []\<rparr>)"
    by (simp add: getall_def getall_loop.simps call_def paging_server_def questions_get_def
          getall_params_def three_records_def RabjQuestion_init_def world0_def queue1_def)
  have d: "length three_records div nat 2 = 1" by (simp add: three_records_def)
  have q1: "queue queue1 = queue_rec" by (simp add: queue1_def)
  have step: "getall_loop (paging_server three_records) queue1 JNone (JBool True) (JBool False)
        JNone 2 0 [] world0
     = getall_loop (paging_server three_records) queue1 JNone (JBool True) (JBool False) JNone 2
         (0 + 2) ([] @ map (\<lambda>q. \<lparr>question = q\<rparr>) (take 2 three_records)) ?w1"
    using getall_pages_until_short
            [where srv = "paging_server three_records" and self = queue1 and state = JNone
               and P = 2 and off = 0 and sn = JNone and jd = "JBool False" and bd = "JBool True"
               and w = world0 and resp = "JDict []" and page = ?body and ?w1.0 = ?w1
               and recs = "take 2 three_records" and acc = "[]", THEN conjunct1]
          c g tr2 l2 q1
    by simp
  have all: "\<exists>result w'.
           getall (paging_server three_records) queue1 JNone (JBool True) (JBool False) JNone 2
             world0 = Some (Inr result, w')
           \<and> map question result = three_records"
    using getall_pages_until_short
            [where srv = "paging_server three_records" and self = queue1 and state = JNone
               and P = 2 and sn = JNone and jd = "JBool False" and bd = "JBool True"
               and w = world0 and qs = three_records, THEN conjunct2] tr ps
    by auto
  show ?thesis
    using c step tr ev d all
    by (simp add: three_records_def)
qed


subsection \<open>Fetching one question\<close>

text \<open>
  The assertion of \<^verbatim>\<open>getone\<close> passes a list to \<^verbatim>\<open>isinstance\<close>, so with any
  argument the call raises before a request is issued.
\<close>

lemma getone_nominated_raises:
  "q \<noteq> JNone \<Longrightarrow> getone srv self q w = (Inl TypeError, w)"
  by (simp add: getone_def)

text \<open>
  C9 on the code. With an id or a record as argument \<^verbatim>\<open>getone\<close> raises \<open>TypeError\<close>
  and the world is as it was: the nominated question is not fetched. Without an argument
  the request with limit 1 is issued, and the lookup of \<open>id\<close> in the response metadata
  raises \<open>KeyError\<close>: no question is returned.
\<close>

theorem getone_fetches_nothing:
  "getone (paging_server three_records) queue1 (JStr ''q1'') world0 = (Inl TypeError, world0)
   \<and> getone (paging_server three_records) queue1 (JDict [(''id'', JStr ''q1'')]) world0
     = (Inl TypeError, world0)
   \<and> getone (const_server (JList three_records)) queue1 JNone world0
     = (Inl KeyError,
        \<lparr>server_state = 1,
          sent = [\<lparr>target = Container (queue queue1), path = [JStr ''questions''],
                   meth = GET, kwargs = [(''limit'', JInt 1)]\<rparr>],
          logged = []\<rparr>)"
  by (simp add: getone_def call_def const_server_def world0_def)

subsection \<open>The filtered fetches\<close>

text \<open>
  C8 on the code. Called with \<^verbatim>\<open>body=False\<close>, \<^verbatim>\<open>completed_questions\<close> sends
  \<open>body = True\<close> and gets whole records, where \<^verbatim>\<open>getall\<close> with the state
  \<open>complete\<close> and the same four arguments sends no \<open>body\<close> parameter and gets the
  ids; \<^verbatim>\<open>incomplete_questions\<close> differs from \<^verbatim>\<open>getall\<close> with the state
  \<open>wanting\<close> in the same way.
\<close>

theorem completed_questions_drops_body:
  "completed_questions body_server queue1 (JBool False) (JBool False) JNone 5000 world0
     = Some (Inr [\<lparr>question = JDict [(''id'', JStr ''q1''), (''assertion'', JStr ''a1'')]\<rparr>],
             \<lparr>server_state = 1,
               sent = [questions_get queue1 (JStr ''complete'')
                         [(''limit'', JInt 5000), (''offset'', JInt 0), (''body'', JBool True)]],
               logged = []\<rparr>)
   \<and> getall body_server queue1 (JStr ''complete'') (JBool False) (JBool False) JNone 5000 world0
     = Some (Inr [\<lparr>question = JDict [(''id'', JStr ''q1'')]\<rparr>],
             \<lparr>server_state = 1,
               sent = [questions_get queue1 (JStr ''complete'')
                         [(''limit'', JInt 5000), (''offset'', JInt 0)]],
               logged = []\<rparr>)
   \<and> incomplete_questions body_server queue1 (JBool False) (JBool False) JNone 5000 world0
     \<noteq> getall body_server queue1 (JStr ''wanting'') (JBool False) (JBool False) JNone 5000 world0"
  by (simp add: completed_questions_def incomplete_questions_def getall_def getall_loop.simps
        call_def body_server_def questions_get_def getall_params_def RabjQuestion_init_def
        world0_def)


end
